theory Spec2Isabelle
  imports Complex_Main "HOL-Library.Word" "HOL-Library.Log_Nat"
begin

section \<open>Arrays\<close>

text \<open>
  A numpy array is a shape and a buffer in row-major (C) order. Reshaping and inserting an
  axis of extent 1 leave the buffer alone; stacking, slicing and reductions are index
  arithmetic on it. A floating-point intensity or probability is held as the real it
  denotes.
\<close>

record 'a ndarray =
  shape :: "nat list"
  data :: "'a list"

definition wf :: "'a ndarray \<Rightarrow> bool" where
  "wf a \<longleftrightarrow> length (data a) = prod_list (shape a)"

definition ndim :: "'a ndarray \<Rightarrow> nat" where
  "ndim a = length (shape a)"

text \<open>The offset of a full index in the buffer, and \<open>a[i, j, ...]\<close> for an index in range.\<close>

definition flat_index :: "nat list \<Rightarrow> nat list \<Rightarrow> nat" where
  "flat_index s idx = foldl (\<lambda>acc (d, i). acc * d + i) 0 (zip s idx)"

definition item :: "'a ndarray \<Rightarrow> nat list \<Rightarrow> 'a" where
  "item a idx = data a ! flat_index (shape a) idx"

text \<open>The \<open>p\<close>-th block of \<open>m\<close> consecutive elements of the buffer.\<close>

definition chunk :: "'a ndarray \<Rightarrow> nat \<Rightarrow> nat \<Rightarrow> 'a list" where
  "chunk a m p = take m (drop (p * m) (data a))"

datatype exn =
    ValueError | IndexError | AxisError | TypeError | AttributeError | ImageFileError | ModelError

subsection \<open>\<open>np.expand_dims(a, axis=0)\<close>\<close>

definition expand_dims0 :: "'a ndarray \<Rightarrow> 'a ndarray" where
  "expand_dims0 a = a\<lparr>shape := 1 # shape a\<rparr>"

subsection \<open>\<open>np.argmax(a, axis)\<close>\<close>

text \<open>
  The scan of numpy's argmax kernel: the first element is the running maximum, and a later
  element replaces it only when strictly greater, so the lowest index of a maximum wins.
\<close>

fun argmax_loop :: "nat \<Rightarrow> 'a::linorder \<Rightarrow> nat \<Rightarrow> 'a list \<Rightarrow> nat" where
  "argmax_loop bi bv i [] = bi"
| "argmax_loop bi bv i (x # xs) =
     (if bv < x then argmax_loop i x (Suc i) xs else argmax_loop bi bv (Suc i) xs)"

fun argmax_list :: "'a::linorder list \<Rightarrow> nat" where
  "argmax_list [] = 0"
| "argmax_list (x # xs) = argmax_loop 0 x 1 xs"

text \<open>
  An axis outside the array is an AxisError, an axis of extent 0 a ValueError ("attempt to
  get argmax of an empty sequence"); \<open>argmax_list []\<close> is never reached. The scores are
  compared in the order of their type; a NaN, which numpy takes for a maximum, is not a
  value of it.
\<close>

definition np_argmax :: "nat \<Rightarrow> 'a::linorder ndarray \<Rightarrow> exn + nat ndarray" where
  "np_argmax axis a =
     (if ndim a \<le> axis then Inl AxisError
      else
        let pre = take axis (shape a); k = shape a ! axis; post = drop (Suc axis) (shape a);
            q = prod_list post
        in if k = 0 then Inl ValueError
           else Inr \<lparr>shape = pre @ post,
                     data = concat (map (\<lambda>p. map (\<lambda>r.
                              argmax_list (map (\<lambda>c. data a ! ((p * k + c) * q + r)) [0..<k]))
                              [0..<q]) [0..<prod_list pre])\<rparr>)"

subsection \<open>\<open>a[0, :, :, :]\<close>\<close>

definition index0 :: "'a ndarray \<Rightarrow> exn + 'a ndarray" where
  "index0 a =
     (if ndim a < 4 then Inl IndexError
      else if hd (shape a) = 0 then Inl IndexError
      else Inr \<lparr>shape = tl (shape a), data = take (prod_list (tl (shape a))) (data a)\<rparr>)"

section \<open>Effects\<close>

text \<open>
  What a run shows and does, in order: the messages of the page, the calls of the model's
  predict, the file reads and writes. A computation yields its events and either an
  uncaught exception or a value.
\<close>

datatype event =
    Write_temp_model "8 word list"
  | Sidebar_success
  | Sidebar_error exn
  | Sidebar_info_instead
  | Sidebar_info_default
  | Nib_load string
  | St_write_shape "nat list"
  | St_write_running
  | St_write_completed
  | St_error_missing_files
  | St_error_combined_shape "nat list"
  | St_error_input_shape "nat list"
  | Predict "real ndarray"
  | Imshow nat nat "real ndarray"
  | Imshow_labels nat nat "nat ndarray"
  | Axis_off nat nat
  | St_pyplot
  | Nib_save string "real ndarray"
  | St_download_button string
  | Os_remove string

type_synonym 'a io = "event list \<times> (exn + 'a)"

definition io_return :: "'a \<Rightarrow> 'a io" where
  "io_return x = ([], Inr x)"

definition io_raise :: "exn \<Rightarrow> 'a io" where
  "io_raise e = ([], Inl e)"

definition io_emit :: "event \<Rightarrow> unit io" where
  "io_emit ev = ([ev], Inr ())"

definition io_lift :: "exn + 'a \<Rightarrow> 'a io" where
  "io_lift r = ([], r)"

definition io_bind :: "'a io \<Rightarrow> ('a \<Rightarrow> 'b io) \<Rightarrow> 'b io" where
  "io_bind m f =
     (case m of
        (es, Inl e) \<Rightarrow> (es, Inl e)
      | (es, Inr x) \<Rightarrow> (case f x of (es', r) \<Rightarrow> (es @ es', r)))"

section \<open>Model selection\<close>

text \<open>
  app.py, lines 80-95. \<open>load_model\<close> is Keras' deserialiser on the bytes written to
  \<open>temp_model.keras\<close>; the \<open>try\<close> catches whatever it raises.
\<close>

definition select_model ::
  "'m \<Rightarrow> 8 word list option \<Rightarrow> (8 word list \<Rightarrow> exn + 'm) \<Rightarrow> event list \<times> 'm" where
  "select_model default_model uploaded_model load_model =
     (case uploaded_model of
        Some buffer \<Rightarrow>
          (case load_model buffer of
             Inr model \<Rightarrow> ([Write_temp_model buffer, Sidebar_success], model)
           | Inl e \<Rightarrow>
               ([Write_temp_model buffer, Sidebar_error e, Sidebar_info_instead], default_model))
      | None \<Rightarrow> ([Sidebar_info_default], default_model))"

section \<open>Normalisation\<close>

text \<open>
  The scaler computes in float64. A float64 value is held as the real it denotes, and every
  operation gives the exact result rounded to the nearest float64, a tie to the even
  significand: 53 significant bits, with the spacing of the exponent -1022 for everything
  smaller. \<open>exponent64 x\<close> is the exponent of the binade of \<open>x\<close>, the integer part of its
  binary logarithm and at least -1022; \<open>ulp64 x\<close> is the spacing of the float64 values
  there. Results beyond the largest float64 (infinities) are not modelled; the theorems
  bound the magnitudes.
\<close>

definition round_half_even :: "real \<Rightarrow> int" where
  "round_half_even q =
     (let f = \<lfloor>q\<rfloor>; d = q - of_int f
      in if d < 1 / 2 then f else if 1 / 2 < d then f + 1 else if even f then f else f + 1)"

definition exponent64 :: "real \<Rightarrow> int" where
  "exponent64 x =
     (if 1 \<le> \<bar>x\<bar> then int (floorlog 2 (nat \<lfloor>\<bar>x\<bar>\<rfloor>)) - 1
      else - int (length (takeWhile (\<lambda>n. \<bar>x\<bar> * 2 ^ n < 1) [0..<1022])))"

definition ulp64 :: "real \<Rightarrow> real" where
  "ulp64 x = power_int 2 (exponent64 x - 52)"

definition round64 :: "real \<Rightarrow> real" where
  "round64 x =
     (if x = 0 then 0
      else sgn x * of_int (round_half_even (\<bar>x\<bar> / ulp64 x)) * ulp64 x)"

text \<open>\<open>np.finfo(np.float64).eps\<close>\<close>

definition eps64 :: real where
  "eps64 = 1 / 2 ^ 52"

text \<open>
  sklearn's \<open>MinMaxScaler()\<close> with its default feature range (0, 1) and no clipping, fitted
  and applied to a matrix of \<open>rows\<close> samples and \<open>cols\<close> features held row by row. Per feature
  it takes the minimum and the maximum over the samples and their difference
  \<open>data_range\<close>; \<open>handle_zeros_in_scale\<close> replaces a range below ten machine epsilons by 1;
  \<open>scale_attr\<close> is its attribute \<open>scale_\<close>, \<open>(1 - 0) / data_range\<close>; \<open>min_attr\<close> is its
  attribute \<open>min_\<close>, \<open>0 - data_min * scale_\<close>; the transform is \<open>X *= scale_\<close> followed by
  \<open>X += min_\<close>.
\<close>

definition column :: "nat \<Rightarrow> nat \<Rightarrow> real list \<Rightarrow> nat \<Rightarrow> real list" where
  "column rows cols xs k = map (\<lambda>r. xs ! (r * cols + k)) [0..<rows]"

definition data_min :: "nat \<Rightarrow> nat \<Rightarrow> real list \<Rightarrow> nat \<Rightarrow> real" where
  "data_min rows cols xs k = Min (set (column rows cols xs k))"

definition data_max :: "nat \<Rightarrow> nat \<Rightarrow> real list \<Rightarrow> nat \<Rightarrow> real" where
  "data_max rows cols xs k = Max (set (column rows cols xs k))"

definition data_range :: "nat \<Rightarrow> nat \<Rightarrow> real list \<Rightarrow> nat \<Rightarrow> real" where
  "data_range rows cols xs k = round64 (data_max rows cols xs k - data_min rows cols xs k)"

definition handle_zeros_in_scale :: "real \<Rightarrow> real" where
  "handle_zeros_in_scale s = (if s < 10 * eps64 then 1 else s)"

definition scale_attr :: "nat \<Rightarrow> nat \<Rightarrow> real list \<Rightarrow> nat \<Rightarrow> real" where
  "scale_attr rows cols xs k =
     round64 ((1 - 0) / handle_zeros_in_scale (data_range rows cols xs k))"

definition min_attr :: "nat \<Rightarrow> nat \<Rightarrow> real list \<Rightarrow> nat \<Rightarrow> real" where
  "min_attr rows cols xs k =
     round64 (0 - round64 (data_min rows cols xs k * scale_attr rows cols xs k))"

definition fit_transform :: "nat \<Rightarrow> nat \<Rightarrow> real list \<Rightarrow> real list" where
  "fit_transform rows cols xs =
     concat (map (\<lambda>r. map (\<lambda>k. round64 (round64 (xs ! (r * cols + k) * scale_attr rows cols xs k) +
                                          min_attr rows cols xs k)) [0..<cols]) [0..<rows])"

text \<open>
  \<open>preprocess_nifti\<close> (app.py, lines 40-48). \<open>fs\<close> is \<open>nib.load(path).get_fdata()\<close>, which
  raises on an unreadable file. \<open>image.shape[-1]\<close> raises on a 0-d array,
  \<open>reshape(-1, 0)\<close> cannot infer the row count, and the scaler refuses a matrix without
  samples. Both reshapes keep the buffer.
\<close>

definition preprocess_nifti :: "(string \<Rightarrow> exn + real ndarray) \<Rightarrow> string \<Rightarrow> real ndarray io" where
  "preprocess_nifti fs file_path =
     io_bind (io_emit (Nib_load file_path)) (\<lambda>_.
     io_bind (io_lift (fs file_path)) (\<lambda>image.
       if shape image = [] then io_raise IndexError
       else let cols = last (shape image)
            in if cols = 0 then io_raise ValueError
               else let rows = prod_list (shape image) div cols
                    in if rows = 0 then io_raise ValueError
                       else io_return (image\<lparr>data := fit_transform rows cols (data image)\<rparr>)))"

section \<open>Channel combination\<close>

text \<open>
  \<open>np.stack(arrays, axis=3)\<close>: the shapes must agree (ValueError), the new axis must exist
  in the result (AxisError below three dimensions), and the new axis is put at position 3.
\<close>

definition np_stack_axis3 :: "'a ndarray list \<Rightarrow> exn + 'a ndarray" where
  "np_stack_axis3 arrays =
     (let s = shape (hd arrays)
      in if \<not> list_all (\<lambda>a. shape a = s) arrays then Inl ValueError
         else if length s < 3 then Inl AxisError
         else
           let pre = take 3 s; post = drop 3 s; m = prod_list post
           in Inr \<lparr>shape = pre @ [length arrays] @ post,
                     data = concat (map (\<lambda>p. concat (map (\<lambda>a. chunk a m p) arrays))
                                        [0..<prod_list pre])\<rparr>)"

text \<open>The indices a slice \<open>lo:hi\<close> selects on an axis of extent \<open>n\<close>: Python clamps both ends.\<close>

definition slice_range :: "nat \<Rightarrow> nat \<Rightarrow> nat \<Rightarrow> nat list" where
  "slice_range lo hi n = [min lo n..<min hi n]"

text \<open>\<open>a[56:184, 56:184, 13:141]\<close>; the axes after the third are kept whole.\<close>

definition crop :: "'a ndarray \<Rightarrow> exn + 'a ndarray" where
  "crop a =
     (if ndim a < 3 then Inl IndexError
      else
        let y = shape a ! 1; z = shape a ! 2; rest = drop 3 (shape a); m = prod_list rest;
            xs = slice_range 56 184 (shape a ! 0);
            ys = slice_range 56 184 y;
            zs = slice_range 13 141 z
        in Inr \<lparr>shape = [length xs, length ys, length zs] @ rest,
                  data = concat (map (\<lambda>i. concat (map (\<lambda>j. concat (map (\<lambda>k.
                           chunk a m ((i * y + j) * z + k)) zs)) ys)) xs)\<rparr>)"

text \<open>\<open>combine_channels\<close> (app.py, lines 51-55).\<close>

definition combine_channels ::
  "'a ndarray \<Rightarrow> 'a ndarray \<Rightarrow> 'a ndarray \<Rightarrow> 'a ndarray \<Rightarrow> exn + 'a ndarray" where
  "combine_channels t1n t1c t2f t2w =
     (case np_stack_axis3 [t1n, t1c, t2f, t2w] of
        Inl e \<Rightarrow> Inl e
      | Inr combined_image \<Rightarrow> crop combined_image)"

section \<open>Inference\<close>

text \<open>
  \<open>run_segmentation\<close> (app.py, lines 58-73). The model is its predict capability, which may
  raise. \<open>None\<close> is the return of the shape-error branch.
\<close>

definition run_segmentation ::
  "(real ndarray \<Rightarrow> exn + real ndarray) \<Rightarrow> real ndarray \<Rightarrow> nat ndarray option io" where
  "run_segmentation predict input_image =
     (let input_image = expand_dims0 input_image
      in if length (shape input_image) \<noteq> 5
         then io_bind (io_emit (St_error_input_shape (shape input_image))) (\<lambda>_. io_return None)
         else io_bind (io_emit (Predict input_image)) (\<lambda>_.
              io_bind (io_lift (predict input_image)) (\<lambda>prediction.
              io_bind (io_lift (np_argmax 4 prediction)) (\<lambda>am.
              io_bind (io_lift (index0 am)) (\<lambda>prediction_argmax.
              io_return (Some prediction_argmax))))))"


section \<open>Ground truth\<close>

text \<open>
  \<open>mask.astype(np.uint8)\<close> on the float data of the file: the fraction is dropped and the
  integer is reduced to 8 bits.
\<close>

definition astype_uint8 :: "real \<Rightarrow> 8 word" where
  "astype_uint8 v = word_of_int (if 0 \<le> v then \<lfloor>v\<rfloor> else \<lceil>v\<rceil>)"

text \<open>\<open>mask[mask == 4] = 3\<close>\<close>

definition reassign :: "8 word \<Rightarrow> 8 word" where
  "reassign v = (if v = 4 then 3 else v)"

text \<open>
  Keras' \<open>to_categorical(x, num_classes)\<close> for a given non-zero \<open>num_classes\<close>: the labels are
  read as integers; a last axis of extent 1 is dropped from the output shape when there is
  another axis before it; the labels are flattened and row \<open>n\<close> of a zero matrix gets a 1 in
  column \<open>x[n]\<close>, an IndexError when the label is not below \<open>num_classes\<close>; the matrix is
  reshaped to the output shape followed by \<open>num_classes\<close>.
\<close>

definition to_categorical :: "8 word ndarray \<Rightarrow> nat \<Rightarrow> exn + real ndarray" where
  "to_categorical x num_classes =
     (let input_shape =
            (if shape x \<noteq> [] \<and> last (shape x) = 1 \<and> 1 < length (shape x)
             then butlast (shape x) else shape x);
          labels = map unat (data x)
      in if list_ex (\<lambda>v. num_classes \<le> v) labels then Inl IndexError
         else Inr \<lparr>shape = input_shape @ [num_classes],
                   data = concat (map (\<lambda>v. map (\<lambda>c. if c = v then 1 else 0) [0..<num_classes])
                                      labels)\<rparr>)"

text \<open>app.py, lines 161-163, on the loaded mask.\<close>

definition mask_argmax :: "real ndarray \<Rightarrow> exn + nat ndarray" where
  "mask_argmax mask_fdata =
     (let mask8 = \<lparr>shape = shape mask_fdata, data = map astype_uint8 (data mask_fdata)\<rparr>;
          mask8 = mask8\<lparr>data := map reassign (data mask8)\<rparr>
      in case to_categorical mask8 4 of
           Inl e \<Rightarrow> Inl e
         | Inr categorical \<Rightarrow> np_argmax 3 categorical)"

section \<open>The uploaded archive\<close>

text \<open>Python's \<open>str.endswith\<close> and posix \<open>os.path.join\<close> of two components.\<close>

definition endswith :: "string \<Rightarrow> string \<Rightarrow> bool" where
  "endswith s suf \<longleftrightarrow> length suf \<le> length s \<and> drop (length s - length suf) s = suf"

definition path_join :: "string \<Rightarrow> string \<Rightarrow> string" where
  "path_join a b =
     (if b \<noteq> [] \<and> hd b = CHR ''/'' then b
      else if a = [] \<or> last a = CHR ''/'' then a @ b
      else a @ ''/'' @ b)"

record found =
  t1n_path :: "string option"
  t1c_path :: "string option"
  t2f_path :: "string option"
  t2w_path :: "string option"
  mask_path :: "string option"

definition not_found :: found where
  "not_found = \<lparr>t1n_path = None, t1c_path = None, t2f_path = None, t2w_path = None,
                 mask_path = None\<rparr>"

text \<open>The body of the inner loop (app.py, lines 122-131).\<close>

definition scan_file :: "string \<Rightarrow> found \<Rightarrow> string \<Rightarrow> found" where
  "scan_file rootdir st file =
     (if endswith file ''t1n.nii.gz'' then st\<lparr>t1n_path := Some (path_join rootdir file)\<rparr>
      else if endswith file ''t1c.nii.gz'' then st\<lparr>t1c_path := Some (path_join rootdir file)\<rparr>
      else if endswith file ''t2f.nii.gz'' then st\<lparr>t2f_path := Some (path_join rootdir file)\<rparr>
      else if endswith file ''t2w.nii.gz'' then st\<lparr>t2w_path := Some (path_join rootdir file)\<rparr>
      else if endswith file ''seg.nii.gz'' then st\<lparr>mask_path := Some (path_join rootdir file)\<rparr>
      else st)"

text \<open>
  The two loops over \<open>os.walk(temp_dir)\<close> (app.py, lines 120-131); the walk is the list of
  its \<open>(root, files)\<close>, here \<open>(rootdir, files)\<close>, in the order it yields them.
\<close>

definition find_files :: "(string \<times> string list) list \<Rightarrow> found" where
  "find_files walk = foldl (\<lambda>st (rootdir, files). foldl (scan_file rootdir) st files) not_found walk"

text \<open>The truth value of a path variable: \<open>None\<close> and the empty string are false.\<close>

definition truthy :: "string option \<Rightarrow> bool" where
  "truthy p = (case p of None \<Rightarrow> False | Some s \<Rightarrow> s \<noteq> [])"

section \<open>Presentation and packaging\<close>

text \<open>\<open>a[:, :, n]\<close> and \<open>a[:, :, n, 0]\<close>\<close>

definition slice_depth :: "'a ndarray \<Rightarrow> nat \<Rightarrow> exn + 'a ndarray" where
  "slice_depth a n =
     (if ndim a < 3 then Inl IndexError
      else
        let x = shape a ! 0; y = shape a ! 1; z = shape a ! 2; rest = drop 3 (shape a);
            m = prod_list rest
        in if z \<le> n then Inl IndexError
           else Inr \<lparr>shape = x # y # rest,
                     data = concat (map (\<lambda>i. concat (map (\<lambda>j.
                              chunk a m ((i * y + j) * z + n)) [0..<y])) [0..<x])\<rparr>)"

definition slice_depth_channel0 :: "'a ndarray \<Rightarrow> nat \<Rightarrow> exn + 'a ndarray" where
  "slice_depth_channel0 a n =
     (if ndim a < 4 then Inl IndexError
      else
        let x = shape a ! 0; y = shape a ! 1; z = shape a ! 2; c = shape a ! 3;
            rest = drop 4 (shape a); m = prod_list rest
        in if z \<le> n \<or> c = 0 then Inl IndexError
           else Inr \<lparr>shape = x # y # rest,
                     data = concat (map (\<lambda>i. concat (map (\<lambda>j.
                              chunk a m (((i * y + j) * z + n) * c + 0)) [0..<y])) [0..<x])\<rparr>)"

text \<open>
  \<open>np.rot90(m)\<close>: one quarter turn in the plane of the first two axes,
  \<open>out[i, j] = m[j, cols - 1 - i]\<close>; a ValueError below two dimensions.
\<close>

definition np_rot90 :: "'a ndarray \<Rightarrow> exn + 'a ndarray" where
  "np_rot90 a =
     (if ndim a < 2 then Inl ValueError
      else
        let r = shape a ! 0; c = shape a ! 1; rest = drop 2 (shape a); m = prod_list rest
        in Inr \<lparr>shape = c # r # rest,
                  data = concat (map (\<lambda>i. concat (map (\<lambda>j.
                           chunk a m (j * c + (c - 1 - i))) [0..<r])) [0..<c])\<rparr>)"

definition rotated_slice :: "'a ndarray \<Rightarrow> nat \<Rightarrow> exn + 'a ndarray" where
  "rotated_slice a n = (case slice_depth a n of Inl e \<Rightarrow> Inl e | Inr s \<Rightarrow> np_rot90 s)"

definition rotated_image_slice :: "'a ndarray \<Rightarrow> nat \<Rightarrow> exn + 'a ndarray" where
  "rotated_image_slice a n =
     (case slice_depth_channel0 a n of Inl e \<Rightarrow> Inl e | Inr s \<Rightarrow> np_rot90 s)"

text \<open>
  The ground truth, when a mask file was found (app.py, lines 159-165).
\<close>

definition load_mask ::
  "(string \<Rightarrow> exn + real ndarray) \<Rightarrow> string option \<Rightarrow> nat ndarray option io" where
  "load_mask fs mask_file =
     (if truthy mask_file
      then io_bind (io_emit (Nib_load (the mask_file))) (\<lambda>_.
           io_bind (io_lift (fs (the mask_file))) (\<lambda>mask_fdata.
           io_bind (io_lift (mask_argmax mask_fdata)) (\<lambda>am.
           io_return (Some am))))
      else io_return None)"

text \<open>
  One row of the figure (the body of the loop at app.py, lines 174-195). Subscripting the
  \<open>None\<close> of a failed segmentation is a TypeError. The rendering surface takes what it is
  given.
\<close>

definition plot_row ::
  "real ndarray \<Rightarrow> nat ndarray option \<Rightarrow> string option \<Rightarrow> nat ndarray option \<Rightarrow>
   nat \<times> nat \<Rightarrow> unit io" where
  "plot_row combined_image segmentation_result mask_file mask_am row =
     (case row of (i, n_slice) \<Rightarrow>
        io_bind (io_lift (rotated_image_slice combined_image n_slice)) (\<lambda>test_img_rotated.
        io_bind (case segmentation_result of
                   None \<Rightarrow> io_raise TypeError
                 | Some r \<Rightarrow> io_lift (rotated_slice r n_slice)) (\<lambda>test_prediction_rotated.
        io_bind (io_emit (Imshow i 0 test_img_rotated)) (\<lambda>_.
        io_bind (if truthy mask_file
                 then io_bind (case mask_am of
                                 None \<Rightarrow> io_raise TypeError
                               | Some m \<Rightarrow> io_lift (rotated_slice m n_slice)) (\<lambda>test_mask_rotated.
                      io_emit (Imshow_labels i 1 test_mask_rotated))
                 else io_emit (Axis_off i 1)) (\<lambda>_.
        io_bind (io_emit (Imshow_labels i 2 test_prediction_rotated)) (\<lambda>_.
        io_bind (io_emit (Imshow i 3 test_img_rotated)) (\<lambda>_.
        io_emit (Imshow_labels i 3 test_prediction_rotated))))))))"

fun plot_rows ::
  "real ndarray \<Rightarrow> nat ndarray option \<Rightarrow> string option \<Rightarrow> nat ndarray option \<Rightarrow>
   (nat \<times> nat) list \<Rightarrow> unit io" where
  "plot_rows combined_image segmentation_result mask_file mask_am [] = io_return ()"
| "plot_rows combined_image segmentation_result mask_file mask_am (row # rows) =
     io_bind (plot_row combined_image segmentation_result mask_file mask_am row) (\<lambda>_.
     plot_rows combined_image segmentation_result mask_file mask_am rows)"

definition slice_indices :: "nat list" where
  "slice_indices = [75, 90, 100]"

text \<open>
  Packaging (app.py, lines 200-214): the labels cast to float32, saved, offered for
  download, and the file removed.
\<close>

definition astype_float32 :: "nat ndarray \<Rightarrow> real ndarray" where
  "astype_float32 a = \<lparr>shape = shape a, data = map real (data a)\<rparr>"

definition output_file :: string where
  "output_file = ''segmentation_result.nii.gz''"

definition save_result :: "nat ndarray option \<Rightarrow> unit io" where
  "save_result segmentation_result =
     (case segmentation_result of
        None \<Rightarrow> io_raise AttributeError
      | Some r \<Rightarrow>
          io_bind (io_emit (Nib_save output_file (astype_float32 r))) (\<lambda>_.
          io_bind (io_emit (St_download_button output_file)) (\<lambda>_.
          io_emit (Os_remove output_file))))"

section \<open>The request\<close>

text \<open>
  What follows the segmentation (app.py, lines 155-214): the ground truth, the figure, the
  packaged result.
\<close>

definition present ::
  "(string \<Rightarrow> exn + real ndarray) \<Rightarrow> string option \<Rightarrow> real ndarray \<Rightarrow> nat ndarray option \<Rightarrow>
   unit io" where
  "present fs mask_file combined_image segmentation_result =
     io_bind (io_emit St_write_completed) (\<lambda>_.
     io_bind (load_mask fs mask_file) (\<lambda>mask_am.
     io_bind (plot_rows combined_image segmentation_result mask_file mask_am
                (zip [0..<length slice_indices] slice_indices)) (\<lambda>_.
     io_bind (io_emit St_pyplot) (\<lambda>_.
     save_result segmentation_result))))"

text \<open>
  Preprocessing, combination and segmentation (app.py, lines 136-153), for the four paths
  found. The value is the combined image and what \<open>run_segmentation\<close> returned, or nothing
  in the branch that reports the combined image's shape.
\<close>

definition segment ::
  "(string \<Rightarrow> exn + real ndarray) \<Rightarrow> (real ndarray \<Rightarrow> exn + real ndarray) \<Rightarrow> found \<Rightarrow>
   (real ndarray \<times> nat ndarray option) option io" where
  "segment fs predict st =
     io_bind (preprocess_nifti fs (the (t1n_path st))) (\<lambda>t1n.
     io_bind (preprocess_nifti fs (the (t1c_path st))) (\<lambda>t1c.
     io_bind (preprocess_nifti fs (the (t2f_path st))) (\<lambda>t2f.
     io_bind (preprocess_nifti fs (the (t2w_path st))) (\<lambda>t2w.
     io_bind (io_lift (combine_channels t1n t1c t2f t2w)) (\<lambda>combined_image.
     io_bind (io_emit (St_write_shape (shape combined_image))) (\<lambda>_.
       if length (shape combined_image) \<noteq> 4
       then io_bind (io_emit (St_error_combined_shape (shape combined_image))) (\<lambda>_.
            io_return None)
       else io_bind (io_emit St_write_running) (\<lambda>_.
            io_bind (run_segmentation predict combined_image) (\<lambda>segmentation_result.
            io_return (Some (combined_image, segmentation_result))))))))))"

text \<open>The handler of an uploaded archive, from the walk on (app.py, lines 113-216).\<close>

definition handler ::
  "(string \<Rightarrow> exn + real ndarray) \<Rightarrow> (real ndarray \<Rightarrow> exn + real ndarray) \<Rightarrow>
   (string \<times> string list) list \<Rightarrow> unit io" where
  "handler fs predict walk =
     (let st = find_files walk
      in if truthy (t1n_path st) \<and> truthy (t1c_path st) \<and> truthy (t2f_path st) \<and>
            truthy (t2w_path st)
         then io_bind (segment fs predict st) (\<lambda>r.
                case r of
                  None \<Rightarrow> io_return ()
                | Some (combined_image, segmentation_result) \<Rightarrow>
                    present fs (mask_path st) combined_image segmentation_result)
         else io_emit St_error_missing_files)"

section \<open>Properties named by the specification\<close>

text \<open>
  \<open>v\<close> is the index of the maximum of \<open>xs\<close>, the lowest such index: no element is greater
  than \<open>xs ! v\<close> and every element before it is smaller.
\<close>

definition is_argmax :: "'a::linorder list \<Rightarrow> nat \<Rightarrow> bool" where
  "is_argmax xs v \<longleftrightarrow>
     v < length xs \<and> (\<forall>c < length xs. xs ! c \<le> xs ! v) \<and> (\<forall>c < v. xs ! c < xs ! v)"

text \<open>
  A crafted probability tensor of shape (1, 2, 2, 2, 4): eight voxels with a single maximum
  or with ties, and an input of shape (2, 2, 2, 4) for a stub model that returns it.
\<close>

definition crafted_prediction :: "real ndarray" where
  "crafted_prediction =
     \<lparr>shape = [1, 2, 2, 2, 4],
      data = [1/10, 7/10, 1/10, 1/10,   1/4, 1/4, 1/4, 1/4,   0, 1/2, 1/2, 0,   0, 0, 0, 1,
              2/5, 1/10, 2/5, 1/10,   1/10, 1/5, 3/10, 2/5,   1/10, 1/5, 7/20, 7/20,
              1, 0, 0, 0]\<rparr>"

definition crafted_input :: "real ndarray" where
  "crafted_input = \<lparr>shape = [2, 2, 2, 4], data = replicate 32 0\<rparr>"

definition flat_input :: "real ndarray" where
  "flat_input = \<lparr>shape = [2, 2, 2], data = replicate 8 0\<rparr>"

text \<open>A deserialiser that accepts one buffer only, for models that are numbers.\<close>

definition stub_load_model :: "8 word list \<Rightarrow> exn + nat" where
  "stub_load_model buffer = (if buffer = [1] then Inr 7 else Inl ValueError)"

text \<open>
  The recognised suffixes, the variable each one binds, and the paths of the files with a
  given suffix in the order the walk meets them.
\<close>

datatype modality = T1n | T1c | T2f | T2w | Seg

fun suffix_of :: "modality \<Rightarrow> string" where
  "suffix_of T1n = ''t1n.nii.gz''"
| "suffix_of T1c = ''t1c.nii.gz''"
| "suffix_of T2f = ''t2f.nii.gz''"
| "suffix_of T2w = ''t2w.nii.gz''"
| "suffix_of Seg = ''seg.nii.gz''"

fun binding_of :: "modality \<Rightarrow> found \<Rightarrow> string option" where
  "binding_of T1n st = t1n_path st"
| "binding_of T1c st = t1c_path st"
| "binding_of T2f st = t2f_path st"
| "binding_of T2w st = t2w_path st"
| "binding_of Seg st = mask_path st"

definition matches :: "string \<Rightarrow> (string \<times> string list) list \<Rightarrow> string list" where
  "matches suf walk =
     concat (map (\<lambda>(rootdir, files). map (path_join rootdir) (filter (\<lambda>f. endswith f suf) files))
                 walk)"

definition first_option :: "'a list \<Rightarrow> 'a option" where
  "first_option xs = (if xs = [] then None else Some (hd xs))"

definition last_option :: "'a list \<Rightarrow> 'a option" where
  "last_option xs = (if xs = [] then None else Some (last xs))"

definition first_match :: "string \<Rightarrow> (string \<times> string list) list \<Rightarrow> string option" where
  "first_match suf walk = first_option (matches suf walk)"

definition last_match :: "string \<Rightarrow> (string \<times> string list) list \<Rightarrow> string option" where
  "last_match suf walk = last_option (matches suf walk)"

text \<open>An extracted archive with two files of the T1n suffix.\<close>

definition duplicate_walk :: "(string \<times> string list) list" where
  "duplicate_walk =
     [(''/tmp/x'', [''uploaded_folder.zip'']),
      (''/tmp/x/case'', [''a-t1n.nii.gz'', ''b-t1n.nii.gz'', ''a-t1c.nii.gz''])]"

text \<open>
  An archive without the T2w file, an archive with the four modalities and no ground truth,
  and a file system and a model that refuse everything.
\<close>

definition missing_t2w_walk :: "(string \<times> string list) list" where
  "missing_t2w_walk =
     [(''/tmp/x'', [''uploaded_folder.zip'']),
      (''/tmp/x/case'', [''a-t1n.nii.gz'', ''a-t1c.nii.gz'', ''a-t2f.nii.gz'', ''a-seg.nii.gz''])]"

definition complete_walk :: "(string \<times> string list) list" where
  "complete_walk =
     [(''/tmp/x'', [''uploaded_folder.zip'']),
      (''/tmp/x/case'', [''a-t1n.nii.gz'', ''a-t1c.nii.gz'', ''a-t2f.nii.gz'', ''a-t2w.nii.gz''])]"

definition unreadable :: "string \<Rightarrow> exn + real ndarray" where
  "unreadable file_path = Inl ImageFileError"

definition refusing_model :: "real ndarray \<Rightarrow> exn + real ndarray" where
  "refusing_model input_image = Inl ModelError"

text \<open>A volume of shape (240, 240, 155) filled with one value.\<close>

definition constant_volume :: "'a \<Rightarrow> 'a ndarray" where
  "constant_volume v = \<lparr>shape = [240, 240, 155], data = replicate (240 * 240 * 155) v\<rparr>"

text \<open>The two reports of a wrong rank (app.py, lines 67 and 149).\<close>

definition shape_error :: "event \<Rightarrow> bool" where
  "shape_error e =
     (case e of St_error_combined_shape s \<Rightarrow> True | St_error_input_shape s \<Rightarrow> True | _ \<Rightarrow> False)"


text \<open>A file system in which every file holds the same volume of shape (240, 240, 155).\<close>

definition uniform_fs :: "string \<Rightarrow> exn + real ndarray" where
  "uniform_fs file_path = Inr (constant_volume 1)"

text \<open>
  The values of a 3-dimensional volume at index \<open>k\<close> of the last axis, over all positions of
  the other two axes, their minimum and maximum, and a range that is not degenerate.
\<close>

definition plane :: "real ndarray \<Rightarrow> nat \<Rightarrow> real list" where
  "plane a k =
     concat (map (\<lambda>i. map (\<lambda>j. item a [i, j, k]) [0..<shape a ! 1]) [0..<shape a ! 0])"

definition range_min :: "real ndarray \<Rightarrow> nat \<Rightarrow> real" where
  "range_min a k = Min (set (plane a k))"

definition range_max :: "real ndarray \<Rightarrow> nat \<Rightarrow> real" where
  "range_max a k = Max (set (plane a k))"

definition non_degenerate :: "real ndarray \<Rightarrow> nat \<Rightarrow> bool" where
  "non_degenerate a k \<longleftrightarrow> plane a k \<noteq> [] \<and> range_min a k < range_max a k"

text \<open>
  The value the scaler gives to \<open>x\<close> in a feature with minimum \<open>lo\<close> and maximum \<open>hi\<close>, each
  operation rounded.
\<close>

definition scaled64 :: "real \<Rightarrow> real \<Rightarrow> real \<Rightarrow> real" where
  "scaled64 lo hi x =
     (let r = round64 (hi - lo);
          s = round64 (1 / (if r < 10 * eps64 then 1 else r))
      in round64 (round64 (x * s) - round64 (lo * s)))"

text \<open>
  Volumes with one index along the last axis: shape (2, 1, 2) with ranges 2 and 4; shape
  (2, 1, 1) with the values 1 and 1 + 2^-50, a range of four machine epsilons; shape
  (3, 1, 1) with the values 680, 376 and 408. Each with the file system that holds it in
  every file.
\<close>

definition small_volume :: "real ndarray" where
  "small_volume = \<lparr>shape = [2, 1, 2], data = [1, 5, 3, 9]\<rparr>"

definition small_fs :: "string \<Rightarrow> exn + real ndarray" where
  "small_fs file_path = Inr small_volume"

definition narrow_volume :: "real ndarray" where
  "narrow_volume = \<lparr>shape = [2, 1, 1], data = [1, 1 + 1 / 2 ^ 50]\<rparr>"

definition narrow_fs :: "string \<Rightarrow> exn + real ndarray" where
  "narrow_fs file_path = Inr narrow_volume"

definition integer_volume :: "real ndarray" where
  "integer_volume = \<lparr>shape = [3, 1, 1], data = [680, 376, 408]\<rparr>"

definition integer_fs :: "string \<Rightarrow> exn + real ndarray" where
  "integer_fs file_path = Inr integer_volume"

text \<open>
  Annotation volumes with the labels 0, 1, 2 and 4: one of shape (1, 2, 2) and one of a
  single slice, shape (2, 2, 1).
\<close>

definition annotation :: "real ndarray" where
  "annotation = \<lparr>shape = [1, 2, 2], data = [0, 1, 2, 4]\<rparr>"

definition single_slice_annotation :: "real ndarray" where
  "single_slice_annotation = \<lparr>shape = [2, 2, 1], data = [0, 1, 2, 4]\<rparr>"

text \<open>The voxel contents a run writes to its output file.\<close>

fun saved_of :: "event \<Rightarrow> real ndarray list" where
  "saved_of (Nib_save f a) = [a]"
| "saved_of _ = []"

definition saved :: "event list \<Rightarrow> real ndarray list" where
  "saved es = concat (map saved_of es)"

text \<open>
  An archive with the four modalities and a ground-truth file, a file system in which the
  modality files hold a volume of shape (240, 240, 155) and the ground-truth file is
  unreadable, and a stub model that favours class 2 at every voxel.
\<close>

definition seg_walk :: "(string \<times> string list) list" where
  "seg_walk =
     [(''/tmp/x'', [''uploaded_folder.zip'']),
      (''/tmp/x/case'', [''a-t1n.nii.gz'', ''a-t1c.nii.gz'', ''a-t2f.nii.gz'', ''a-t2w.nii.gz'',
                         ''a-seg.nii.gz''])]"

definition broken_seg_fs :: "string \<Rightarrow> exn + real ndarray" where
  "broken_seg_fs file_path =
     (if endswith file_path ''seg.nii.gz'' then Inl ImageFileError
      else Inr (constant_volume 1))"

definition stub_model :: "real ndarray \<Rightarrow> exn + real ndarray" where
  "stub_model input_image =
     Inr \<lparr>shape = [1, 128, 128, 128, 4],
          data = concat (replicate (128 * 128 * 128) [0, 0, 1, 0])\<rparr>"

text \<open>A model that answers with a tensor of four dimensions.\<close>

definition wrong_rank_model :: "real ndarray \<Rightarrow> exn + real ndarray" where
  "wrong_rank_model input_image = Inr \<lparr>shape = [2, 2, 2, 4], data = replicate 32 0\<rparr>"

text \<open>The stub model that returns the crafted tensor.\<close>

definition crafted_model :: "real ndarray \<Rightarrow> exn + real ndarray" where
  "crafted_model input_image = Inr crafted_prediction"

text \<open>
  In a run whose segmentation stage returned, an error of the ground truth is the outcome
  of the request and nothing has been written: an error of loading the mask file, an error
  of its adaptation (app.py, lines 161-163), and an error while the rows of the figure are
  drawn.
\<close>

definition ground_truth_aborts ::
  "(string \<Rightarrow> exn + real ndarray) \<Rightarrow> (real ndarray \<Rightarrow> exn + real ndarray) \<Rightarrow>
   (string \<times> string list) list \<Rightarrow> bool" where
  "ground_truth_aborts fs predict walk \<longleftrightarrow>
     (\<forall>c sr e. snd (segment fs predict (find_files walk)) = Inr (Some (c, sr)) \<longrightarrow>
        (\<forall>p. mask_path (find_files walk) = Some p \<and> fs p = Inl e \<longrightarrow>
             snd (handler fs predict walk) = Inl e \<and> saved (fst (handler fs predict walk)) = []) \<and>
        (\<forall>p mk. mask_path (find_files walk) = Some p \<and> fs p = Inr mk \<and>
                mask_argmax mk = Inl e \<longrightarrow>
             snd (handler fs predict walk) = Inl e \<and> saved (fst (handler fs predict walk)) = []) \<and>
        (\<forall>am. snd (load_mask fs (mask_path (find_files walk))) = Inr am \<and>
              snd (plot_rows c sr (mask_path (find_files walk)) am
                     (zip [0..<length slice_indices] slice_indices)) = Inl e \<longrightarrow>
             snd (handler fs predict walk) = Inl e \<and> saved (fst (handler fs predict walk)) = []))"

text \<open>
  A file system in which the ground-truth file holds the label 5 everywhere, in the shape
  of the modality volumes.
\<close>

definition label5_seg_fs :: "string \<Rightarrow> exn + real ndarray" where
  "label5_seg_fs file_path =
     (if endswith file_path ''seg.nii.gz'' then Inr (constant_volume 5)
      else Inr (constant_volume 1))"

text \<open>
  The archive of \<open>complete_walk\<close> extracted to another temporary directory, and a file
  system whose ground-truth file has a depth of two slices only.
\<close>

definition moved_walk :: "(string \<times> string list) list" where
  "moved_walk =
     [(''/tmp/y'', [''uploaded_folder.zip'']),
      (''/tmp/y/case'', [''a-t1n.nii.gz'', ''a-t1c.nii.gz'', ''a-t2f.nii.gz'', ''a-t2w.nii.gz''])]"

definition shallow_seg_fs :: "string \<Rightarrow> exn + real ndarray" where
  "shallow_seg_fs file_path =
     (if endswith file_path ''seg.nii.gz'' then Inr \<lparr>shape = [2, 2, 2], data = replicate 8 0\<rparr>
      else Inr (constant_volume 1))"

section \<open>Facts about buffers\<close>

lemma flat_bound: "i < a \<Longrightarrow> j < b \<Longrightarrow> i * b + j < a * (b::nat)"
proof -
  assume "i < a" and "j < b"
  then have "i * b + j < i * b + b" by simp
  also have "\<dots> = Suc i * b" by simp
  also have "\<dots> \<le> a * b" using \<open>i < a\<close> by (intro mult_le_mono1) simp
  finally show ?thesis .
qed

lemma length_concat_map_upt:
  assumes "\<And>p. p < n \<Longrightarrow> length (f p) = m"
  shows "length (concat (map f [0..<n])) = n * m"
  using assms by (induction n) simp_all

lemma nth_concat_map_upt:
  assumes "\<And>p. p < n \<Longrightarrow> length (f p) = m" and "p < n" and "r < m"
  shows "concat (map f [0..<n]) ! (p * m + r) = f p ! r"
  using assms
proof (induction n)
  case 0
  then show ?case by simp
next
  case (Suc n)
  have len: "length (concat (map f [0..<n])) = n * m"
    using Suc.prems(1) by (simp add: length_concat_map_upt)
  show ?case
  proof (cases "p < n")
    case True
    then have "p * m + r < n * m"
      using Suc.prems(3) by (rule flat_bound)
    with True Suc show ?thesis by (simp add: nth_append len)
  next
    case False
    with Suc.prems have "p = n" by simp
    then show ?thesis using Suc.prems(3) by (simp add: nth_append len)
  qed
qed


lemma flat_index3: "flat_index [x, y, z] [i, j, l] = (i * y + j) * z + l"
  by (simp add: flat_index_def)

lemma flat_index4: "flat_index [x, y, z, k] [i, j, l, c] = ((i * y + j) * z + l) * k + c"
  by (simp add: flat_index_def)

lemma flat_index5:
  "flat_index [b, x, y, z, k] [h, i, j, l, c] = (((h * x + i) * y + j) * z + l) * k + c"
  by (simp add: flat_index_def)

section \<open>The argmax scan\<close>

lemma argmax_loop_spec:
  "is_argmax ys bi \<Longrightarrow> bv = ys ! bi \<Longrightarrow> i = length ys \<Longrightarrow>
   is_argmax (ys @ xs) (argmax_loop bi bv i xs)"
proof (induction xs arbitrary: ys bi bv i)
  case Nil
  then show ?case by simp
next
  case (Cons x xs)
  show ?case
  proof (cases "bv < x")
    case True
    have "is_argmax (ys @ [x]) i"
      using Cons.prems True
      by (auto simp: is_argmax_def nth_append less_Suc_eq intro: le_less_trans less_imp_le)
    from Cons.IH [OF this, of x "Suc i"] Cons.prems True show ?thesis
      by simp
  next
    case False
    have "is_argmax (ys @ [x]) bi"
      using Cons.prems False
      by (auto simp: is_argmax_def nth_append less_Suc_eq)
    from Cons.IH [OF this, of bv "Suc i"] Cons.prems False show ?thesis
      by (simp add: nth_append is_argmax_def)
  qed
qed

lemma argmax_list_spec: "xs \<noteq> [] \<Longrightarrow> is_argmax xs (argmax_list xs)"
proof (cases xs)
  case Nil
  assume "xs \<noteq> []"
  with Nil show ?thesis by simp
next
  case (Cons x xs')
  have "is_argmax [x] 0" by (simp add: is_argmax_def)
  from argmax_loop_spec [OF this, of x 1 xs'] Cons show ?thesis by simp
qed

section \<open>Inference Orchestrator\<close>

lemma run_segmentation_value:
  assumes "shape prediction = [b, x, y, z, k]" and "0 < b" and "0 < k"
    and "ndim input_image = 4"
    and "predict (expand_dims0 input_image) = Inr prediction"
  shows "run_segmentation predict input_image =
           ([Predict (expand_dims0 input_image)],
            Inr (Some \<lparr>shape = [x, y, z],
                       data = take (x * y * z) (concat (map (\<lambda>p.
                                [argmax_list (map (\<lambda>c. data prediction ! (p * k + c)) [0..<k])])
                                [0..<b * x * y * z]))\<rparr>))"
  using assms
  by (simp add: run_segmentation_def expand_dims0_def ndim_def Let_def io_bind_def
      io_emit_def io_lift_def io_return_def np_argmax_def index0_def mult.assoc)

text \<open>
  C1. When the model's predict returns a probability tensor of shape (b, x, y, z, k) for the
  batched input, with at least one batch entry and at least one class, \<open>run_segmentation\<close>
  returns a label volume of shape (x, y, z), the batch axis dropped, whose value at every
  voxel (i, j, l) is the index of the maximum of the class scores of that voxel in batch
  entry 0, the lowest index among equal maxima.
\<close>

theorem run_segmentation_argmax:
  assumes wfp: "wf prediction" and sh: "shape prediction = [b, x, y, z, k]"
    and b: "0 < b" and k: "0 < k"
    and inp: "ndim input_image = 4"
    and pr: "predict (expand_dims0 input_image) = Inr prediction"
  shows "\<exists>labels. snd (run_segmentation predict input_image) = Inr (Some labels) \<and>
           shape labels = [x, y, z] \<and> wf labels \<and>
           (\<forall>i<x. \<forall>j<y. \<forall>l<z.
              is_argmax (map (\<lambda>c. item prediction [0, i, j, l, c]) [0..<k])
                        (item labels [i, j, l]))"
proof -
  define f where "f = (\<lambda>p. [argmax_list (map (\<lambda>c. data prediction ! (p * k + c)) [0..<k])])"
  define labels :: "nat ndarray" where
    "labels = \<lparr>shape = [x, y, z],
                data = take (x * y * z) (concat (map f [0..<b * x * y * z]))\<rparr>"
  have lenf: "\<And>p. length (f p) = 1" by (simp add: f_def)
  have lenam: "length (concat (map f [0..<b * x * y * z])) = b * x * y * z"
    using length_concat_map_upt [of "b * x * y * z" f 1] lenf by simp
  have run: "snd (run_segmentation predict input_image) = Inr (Some labels)"
    using run_segmentation_value [of prediction b x y z k input_image predict] sh b k inp pr
    by (simp add: labels_def f_def)
  have "1 * (x * y * z) \<le> b * (x * y * z)" using b by (intro mult_le_mono1) simp
  then have le: "x * y * z \<le> b * x * y * z" by (simp add: mult.assoc)
  have wfl: "wf labels"
    using lenam le by (simp add: wf_def labels_def)
  have vals: "is_argmax (map (\<lambda>c. item prediction [0, i, j, l, c]) [0..<k])
                        (item labels [i, j, l])"
    if "i < x" "j < y" "l < z" for i j l
  proof -
    let ?p = "(i * y + j) * z + l"
    have p: "?p < x * y * z"
      using that by (intro flat_bound) auto
    from p le have pb: "?p < b * x * y * z" by (rule less_le_trans)
    have "item labels [i, j, l] = concat (map f [0..<b * x * y * z]) ! ?p"
      using p by (simp add: item_def labels_def flat_index3)
    also have "\<dots> = f ?p ! 0"
      using nth_concat_map_upt [of "b * x * y * z" f 1 ?p 0] lenf pb by simp
    finally have lab: "item labels [i, j, l] =
        argmax_list (map (\<lambda>c. data prediction ! (?p * k + c)) [0..<k])"
      by (simp add: f_def)
    have "map (\<lambda>c. item prediction [0, i, j, l, c]) [0..<k] =
          map (\<lambda>c. data prediction ! (?p * k + c)) [0..<k]"
      by (simp add: item_def sh flat_index5)
    moreover have "map (\<lambda>c. data prediction ! (?p * k + c)) [0..<k] \<noteq> []"
      using k by simp
    ultimately show ?thesis
      using lab argmax_list_spec by metis
  qed
  from run wfl vals show ?thesis by (auto simp: labels_def)
qed

theorem run_segmentation_argmax_witness:
  "wf crafted_prediction \<and> shape crafted_prediction = [1, 2, 2, 2, 4] \<and>
   ndim crafted_input = 4 \<and>
   snd (run_segmentation (\<lambda>_. Inr crafted_prediction) crafted_input) =
       Inr (Some \<lparr>shape = [2, 2, 2], data = [1, 0, 1, 3, 0, 3, 2, 0]\<rparr>) \<and>
   is_argmax (map (\<lambda>c. item crafted_prediction [0, 0, 0, 1, c]) [0..<4])
     (item \<lparr>shape = [2, 2, 2], data = [1, 0, 1, 3, 0, 3, 2, 0::nat]\<rparr> [0, 0, 1]) \<and>
   is_argmax (map (\<lambda>c. item crafted_prediction [0, 1, 1, 0, c]) [0..<4])
     (item \<lparr>shape = [2, 2, 2], data = [1, 0, 1, 3, 0, 3, 2, 0::nat]\<rparr> [1, 1, 0])"
proof -
  have w: "wf crafted_prediction" by (simp add: wf_def crafted_prediction_def)
  have s: "shape crafted_prediction = [1, 2, 2, 2, 4]" by (simp add: crafted_prediction_def)
  have n: "ndim crafted_input = 4" by (simp add: ndim_def crafted_input_def)
  have e: "snd (run_segmentation (\<lambda>_. Inr crafted_prediction) crafted_input) =
       Inr (Some \<lparr>shape = [2, 2, 2], data = [1, 0, 1, 3, 0, 3, 2, 0]\<rparr>)"
    by code_simp
  from run_segmentation_argmax [OF w s _ _ n, of "\<lambda>_. Inr crafted_prediction"] e w s n
  show ?thesis by auto
qed

text \<open>
  C7. Without an upload the default model is chosen; an upload that deserialises is
  chosen itself; an upload that fails to deserialise is reported and the default model is
  chosen, the run going on.
\<close>

theorem select_model_fallback:
  "select_model default_model None load_model = ([Sidebar_info_default], default_model) \<and>
   (load_model buffer = Inr m \<longrightarrow>
      select_model default_model (Some buffer) load_model =
        ([Write_temp_model buffer, Sidebar_success], m)) \<and>
   (load_model buffer = Inl e \<longrightarrow>
      select_model default_model (Some buffer) load_model =
        ([Write_temp_model buffer, Sidebar_error e, Sidebar_info_instead], default_model))"
  by (simp add: select_model_def)

theorem select_model_fallback_witness:
  "stub_load_model [1] = Inr 7 \<and> stub_load_model [2] = Inl ValueError \<and>
   select_model 0 None stub_load_model = ([Sidebar_info_default], 0) \<and>
   select_model 0 (Some [1]) stub_load_model = ([Write_temp_model [1], Sidebar_success], 7) \<and>
   select_model 0 (Some [2]) stub_load_model =
     ([Write_temp_model [2], Sidebar_error ValueError, Sidebar_info_instead], 0)"
proof -
  have a: "stub_load_model [1] = Inr 7" and b: "stub_load_model [2] = Inl ValueError"
    by (simp_all add: stub_load_model_def)
  from select_model_fallback [of 0 stub_load_model "[1]" 7]
       select_model_fallback [of 0 stub_load_model "[2]" _ ValueError] a b
  show ?thesis by simp
qed

section \<open>The uploaded archive: which file is bound\<close>

lemma endswith_same_length:
  "endswith f a \<Longrightarrow> endswith f b \<Longrightarrow> length a = length b \<Longrightarrow> a = b"
  by (auto simp: endswith_def)

lemma suffix_of_length: "length (suffix_of m) = 10"
  by (cases m) simp_all

lemma suffix_of_inj: "suffix_of m = suffix_of m' \<Longrightarrow> m = m'"
  by (cases m; cases m') simp_all

lemma endswith_suffix_unique:
  "endswith f (suffix_of m) \<Longrightarrow> endswith f (suffix_of m') \<Longrightarrow> m = m'"
  using endswith_same_length [of f "suffix_of m" "suffix_of m'"]
  by (simp add: suffix_of_length suffix_of_inj)

lemma scan_file_binding:
  "binding_of m (scan_file rootdir st file) =
     (if endswith file (suffix_of m) then Some (path_join rootdir file) else binding_of m st)"
proof (cases "\<exists>m'. endswith file (suffix_of m')")
  case True
  then obtain m' where m': "endswith file (suffix_of m')" by blast
  have other: "\<not> endswith file (suffix_of m'')" if "m'' \<noteq> m'" for m''
    using endswith_suffix_unique [OF m', of m''] that by blast
  show ?thesis
    using m' other [of T1n] other [of T1c] other [of T2f] other [of T2w] other [of Seg]
    by (cases m'; cases m) (simp_all add: scan_file_def)
next
  case False
  then have "\<not> endswith file (suffix_of m'')" for m'' by blast
  from this [of T1n] this [of T1c] this [of T2f] this [of T2w] this [of Seg] this [of m]
  show ?thesis by (simp add: scan_file_def)
qed

lemma last_option_append:
  "last_option (xs @ ys) = (case last_option ys of None \<Rightarrow> last_option xs | Some y \<Rightarrow> Some y)"
  by (simp add: last_option_def)

lemma last_option_map: "last_option (map f xs) = map_option f (last_option xs)"
  by (simp add: last_option_def last_map)

lemma scan_files_binding:
  "binding_of m (foldl (scan_file rootdir) st files) =
     (case last_option (filter (\<lambda>f. endswith f (suffix_of m)) files) of
        None \<Rightarrow> binding_of m st
      | Some f \<Rightarrow> Some (path_join rootdir f))"
proof (induction files rule: rev_induct)
  case Nil
  then show ?case by (simp add: last_option_def)
next
  case (snoc f files)
  then show ?case
    by (simp add: scan_file_binding last_option_def)
qed

lemma walk_binding:
  "binding_of m (foldl (\<lambda>st (rootdir, files). foldl (scan_file rootdir) st files) st walk) =
     (case last_option (matches (suffix_of m) walk) of
        None \<Rightarrow> binding_of m st
      | Some p \<Rightarrow> Some p)"
proof (induction walk rule: rev_induct)
  case Nil
  then show ?case by (simp add: matches_def last_option_def)
next
  case (snoc e walk)
  obtain rootdir files where e: "e = (rootdir, files)" by (cases e)
  have m: "matches (suffix_of m) (walk @ [(rootdir, files)]) =
           matches (suffix_of m) walk @
           map (path_join rootdir) (filter (\<lambda>f. endswith f (suffix_of m)) files)"
    by (simp add: matches_def)
  show ?case
    using snoc
    by (simp add: m e scan_files_binding last_option_append last_option_map
        split: option.splits)
qed

lemma binding_of_find_files:
  "binding_of m (find_files walk) = last_option (matches (suffix_of m) walk)"
  using walk_binding [of m not_found walk]
  by (cases m) (simp_all add: find_files_def not_found_def split: option.splits)

text \<open>
  C8 (as amended). For every walk and every recognised suffix, the path bound to the suffix is
  that of the last file with the suffix that the walk meets (none when there is no such
  file): a later match overwrites an earlier one.
\<close>

theorem find_files_last_match:
  "binding_of m (find_files walk) = last_match (suffix_of m) walk"
  using walk_binding [of m not_found walk]
  by (cases m) (simp_all add: find_files_def last_match_def not_found_def split: option.splits)

theorem find_files_last_match_witness:
  "binding_of T1n (find_files duplicate_walk) = Some ''/tmp/x/case/b-t1n.nii.gz'' \<and>
   last_match (suffix_of T1n) duplicate_walk = Some ''/tmp/x/case/b-t1n.nii.gz''"
proof -
  have "last_match (suffix_of T1n) duplicate_walk = Some ''/tmp/x/case/b-t1n.nii.gz''"
    by (simp add: last_match_def last_option_def matches_def duplicate_walk_def endswith_def
        path_join_def)
  with find_files_last_match [of T1n duplicate_walk] show ?thesis by simp
qed

text \<open>
  C8 as stated fails: with two T1n files in one directory the first match is
  \<open>a-t1n.nii.gz\<close> and the bound file is \<open>b-t1n.nii.gz\<close>.
\<close>

theorem find_files_first_match_counterexample:
  "first_match (suffix_of T1n) duplicate_walk = Some ''/tmp/x/case/a-t1n.nii.gz'' \<and>
   binding_of T1n (find_files duplicate_walk) = Some ''/tmp/x/case/b-t1n.nii.gz'' \<and>
   binding_of T1n (find_files duplicate_walk) \<noteq> first_match (suffix_of T1n) duplicate_walk"
  by (simp add: first_match_def first_option_def matches_def duplicate_walk_def find_files_def
      scan_file_def endswith_def path_join_def not_found_def)

section \<open>Events of the stages\<close>

lemma io_bind_events:
  assumes "list_all P (fst m)" and "\<And>x. snd m = Inr x \<Longrightarrow> list_all P (fst (f x))"
  shows "list_all P (fst (io_bind m f))"
  using assms by (cases m) (auto simp: io_bind_def split: sum.splits prod.splits)

lemma io_return_events: "list_all P (fst (io_return x))"
  by (simp add: io_return_def)

lemma io_raise_events: "list_all P (fst (io_raise e))"
  by (simp add: io_raise_def)

lemma io_lift_events: "list_all P (fst (io_lift r))"
  by (simp add: io_lift_def)

lemma io_emit_events: "P ev \<Longrightarrow> list_all P (fst (io_emit ev))"
  by (simp add: io_emit_def)

lemmas io_events = io_bind_events io_return_events io_raise_events io_lift_events io_emit_events

lemma preprocess_nifti_events:
  "(\<And>p. P (Nib_load p)) \<Longrightarrow> list_all P (fst (preprocess_nifti fs file_path))"
  unfolding preprocess_nifti_def Let_def
  by (intro io_events) (auto intro!: io_events)

lemma run_segmentation_events:
  "(\<And>s. P (St_error_input_shape s)) \<Longrightarrow> (\<And>t. P (Predict t)) \<Longrightarrow>
   list_all P (fst (run_segmentation predict input_image))"
  unfolding run_segmentation_def Let_def
  by (auto intro!: io_events)

lemma segment_events:
  assumes "\<And>p. P (Nib_load p)" "\<And>s. P (St_write_shape s)" "P St_write_running"
    "\<And>s. P (St_error_combined_shape s)" "\<And>s. P (St_error_input_shape s)" "\<And>t. P (Predict t)"
  shows "list_all P (fst (segment fs predict st))"
  unfolding segment_def
  by (auto intro!: io_events preprocess_nifti_events run_segmentation_events assms)

lemma load_mask_events:
  "(\<And>p. P (Nib_load p)) \<Longrightarrow> list_all P (fst (load_mask fs mask_file))"
  unfolding load_mask_def
  by (auto intro!: io_events)

lemma plot_row_events:
  assumes "\<And>i j a. P (Imshow i j a)" "\<And>i j a. P (Imshow_labels i j a)" "\<And>i j. P (Axis_off i j)"
  shows "list_all P (fst (plot_row combined_image segmentation_result mask_file mask_am row))"
  unfolding plot_row_def
  by (auto intro!: io_events assms split: prod.splits option.splits)

lemma plot_rows_events:
  assumes "\<And>i j a. P (Imshow i j a)" "\<And>i j a. P (Imshow_labels i j a)" "\<And>i j. P (Axis_off i j)"
  shows "list_all P (fst (plot_rows combined_image segmentation_result mask_file mask_am rows))"
  by (induction rows) (auto intro!: io_events plot_row_events assms)

lemma save_result_events:
  assumes "\<And>f a. P (Nib_save f a)" "\<And>f. P (St_download_button f)" "\<And>f. P (Os_remove f)"
  shows "list_all P (fst (save_result segmentation_result))"
  unfolding save_result_def
  by (auto intro!: io_events assms split: option.splits)

lemma present_events:
  assumes "P St_write_completed" "\<And>p. P (Nib_load p)"
    "\<And>i j a. P (Imshow i j a)" "\<And>i j a. P (Imshow_labels i j a)" "\<And>i j. P (Axis_off i j)"
    "P St_pyplot"
    "\<And>f a. P (Nib_save f a)" "\<And>f. P (St_download_button f)" "\<And>f. P (Os_remove f)"
  shows "list_all P (fst (present fs mask_file combined_image segmentation_result))"
  unfolding present_def
  by (auto intro!: io_events load_mask_events plot_rows_events save_result_events assms)

lemma path_join_nonempty: "b \<noteq> [] \<Longrightarrow> path_join a b \<noteq> []"
  by (simp add: path_join_def)

lemma matches_nonempty: "suf \<noteq> [] \<Longrightarrow> p \<in> set (matches suf walk) \<Longrightarrow> p \<noteq> []"
  by (auto simp: matches_def endswith_def path_join_def)

lemma suffix_of_nonempty: "suffix_of m \<noteq> []"
  by (cases m) simp_all

lemma truthy_binding:
  "truthy (binding_of m (find_files walk)) \<longleftrightarrow> matches (suffix_of m) walk \<noteq> []"
proof (cases "matches (suffix_of m) walk = []")
  case True
  then show ?thesis
    by (simp add: binding_of_find_files last_option_def truthy_def)
next
  case False
  then have "last (matches (suffix_of m) walk) \<in> set (matches (suffix_of m) walk)" by simp
  then have "last (matches (suffix_of m) walk) \<noteq> []"
    using matches_nonempty [OF suffix_of_nonempty] by blast
  with False show ?thesis
    by (simp add: binding_of_find_files last_option_def truthy_def)
qed

text \<open>
  C6. When the walk meets no file with one of the four required suffixes, the handler reports
  the missing-input-file error and does nothing else: no file is loaded, the model is not
  called, nothing is saved. When all four are met, whether or not a \<open>seg.nii.gz\<close> is, the
  error is not reported.
\<close>

theorem handler_missing_file:
  "((\<exists>m \<in> {T1n, T1c, T2f, T2w}. matches (suffix_of m) walk = []) \<longrightarrow>
      handler fs predict walk = ([St_error_missing_files], Inr ())) \<and>
   ((\<forall>m \<in> {T1n, T1c, T2f, T2w}. matches (suffix_of m) walk \<noteq> []) \<longrightarrow>
      St_error_missing_files \<notin> set (fst (handler fs predict walk)))"
proof (intro conjI impI)
  assume "\<exists>m \<in> {T1n, T1c, T2f, T2w}. matches (suffix_of m) walk = []"
  then show "handler fs predict walk = ([St_error_missing_files], Inr ())"
    using truthy_binding [of T1n walk] truthy_binding [of T1c walk]
      truthy_binding [of T2f walk] truthy_binding [of T2w walk]
    by (auto simp: handler_def Let_def io_emit_def)
next
  assume all: "\<forall>m \<in> {T1n, T1c, T2f, T2w}. matches (suffix_of m) walk \<noteq> []"
  let ?P = "\<lambda>e. e \<noteq> St_error_missing_files"
  let ?st = "find_files walk"
  have "list_all ?P (fst (io_bind (segment fs predict ?st) (\<lambda>r.
                case r of
                  None \<Rightarrow> io_return ()
                | Some (combined_image, segmentation_result) \<Rightarrow>
                    present fs (mask_path ?st) combined_image segmentation_result)))"
    by (auto intro!: io_events segment_events present_events split: option.splits)
  moreover have "truthy (t1n_path ?st) \<and> truthy (t1c_path ?st) \<and> truthy (t2f_path ?st) \<and>
            truthy (t2w_path ?st)"
    using all truthy_binding [of T1n walk] truthy_binding [of T1c walk]
      truthy_binding [of T2f walk] truthy_binding [of T2w walk] by simp
  ultimately show "St_error_missing_files \<notin> set (fst (handler fs predict walk))"
    by (auto simp: handler_def Let_def list_all_iff)
qed

theorem handler_missing_file_witness:
  "matches (suffix_of T2w) missing_t2w_walk = [] \<and>
   handler unreadable refusing_model missing_t2w_walk = ([St_error_missing_files], Inr ()) \<and>
   matches (suffix_of T1n) complete_walk \<noteq> [] \<and>
   matches (suffix_of T1c) complete_walk \<noteq> [] \<and>
   matches (suffix_of T2f) complete_walk \<noteq> [] \<and>
   matches (suffix_of T2w) complete_walk \<noteq> [] \<and>
   matches (suffix_of Seg) complete_walk = [] \<and>
   St_error_missing_files \<notin> set (fst (handler unreadable refusing_model complete_walk))"
proof -
  have a: "matches (suffix_of T2w) missing_t2w_walk = []"
    by (simp add: matches_def missing_t2w_walk_def endswith_def)
  have b: "matches (suffix_of T1n) complete_walk \<noteq> []"
    "matches (suffix_of T1c) complete_walk \<noteq> []"
    "matches (suffix_of T2f) complete_walk \<noteq> []"
    "matches (suffix_of T2w) complete_walk \<noteq> []"
    "matches (suffix_of Seg) complete_walk = []"
    by (simp_all add: matches_def complete_walk_def endswith_def)
  from handler_missing_file [of missing_t2w_walk unreadable refusing_model]
       handler_missing_file [of complete_walk unreadable refusing_model] a b
  show ?thesis by simp
qed

section \<open>Blocks, nested loops and stacking\<close>

lemma length_chunk: "Suc p * m \<le> length (data a) \<Longrightarrow> length (chunk a m p) = m"
  by (simp add: chunk_def)

lemma nth_chunk:
  "Suc p * m \<le> length (data a) \<Longrightarrow> r < m \<Longrightarrow> chunk a m p ! r = data a ! (p * m + r)"
  by (simp add: chunk_def)

lemma chunk_fits: "p < n \<Longrightarrow> length (data a) = n * m \<Longrightarrow> Suc p * m \<le> length (data a)"
proof -
  assume "p < n" and l: "length (data a) = n * m"
  then have "Suc p \<le> n" by simp
  then have "Suc p * m \<le> n * m" by (rule mult_le_mono1)
  with l show ?thesis by simp
qed

lemma length_concat3:
  assumes "\<And>i j k. i < a \<Longrightarrow> j < b \<Longrightarrow> k < c \<Longrightarrow> length (f i j k) = m"
  shows "length (concat (map (\<lambda>i. concat (map (\<lambda>j. concat (map (\<lambda>k. f i j k) [0..<c]))
           [0..<b])) [0..<a])) = a * (b * (c * m))"
proof -
  let ?g = "\<lambda>i j. concat (map (\<lambda>k. f i j k) [0..<c])"
  let ?h = "\<lambda>i. concat (map (\<lambda>j. ?g i j) [0..<b])"
  have l1: "length (?g i j) = c * m" if "i < a" "j < b" for i j
    using length_concat_map_upt [of c "\<lambda>k. f i j k" m] assms that by simp
  have l2: "length (?h i) = b * (c * m)" if "i < a" for i
    using length_concat_map_upt [of b "\<lambda>j. ?g i j" "c * m"] l1 that by simp
  show ?thesis
    using length_concat_map_upt [of a ?h "b * (c * m)"] l2 by simp
qed

lemma nth_concat3:
  assumes len: "\<And>i j k. i < a \<Longrightarrow> j < b \<Longrightarrow> k < c \<Longrightarrow> length (f i j k) = m"
    and i: "i < a" and j: "j < b" and k: "k < c" and r: "r < m"
  shows "concat (map (\<lambda>i. concat (map (\<lambda>j. concat (map (\<lambda>k. f i j k) [0..<c]))
           [0..<b])) [0..<a]) ! (((i * b + j) * c + k) * m + r) = f i j k ! r"
proof -
  let ?g = "\<lambda>i j. concat (map (\<lambda>k. f i j k) [0..<c])"
  let ?h = "\<lambda>i. concat (map (\<lambda>j. ?g i j) [0..<b])"
  have l1: "length (?g i j) = c * m" if "i < a" "j < b" for i j
    using length_concat_map_upt [of c "\<lambda>k. f i j k" m] len that by simp
  have l2: "length (?h i) = b * (c * m)" if "i < a" for i
    using length_concat_map_upt [of b "\<lambda>j. ?g i j" "c * m"] l1 that by simp
  have r1: "k * m + r < c * m" using k r by (rule flat_bound)
  have r2: "j * (c * m) + (k * m + r) < b * (c * m)" using j r1 by (rule flat_bound)
  have idx: "((i * b + j) * c + k) * m + r = i * (b * (c * m)) + (j * (c * m) + (k * m + r))"
    by (simp add: algebra_simps)
  have "concat (map ?h [0..<a]) ! (i * (b * (c * m)) + (j * (c * m) + (k * m + r))) =
        ?h i ! (j * (c * m) + (k * m + r))"
    using nth_concat_map_upt [of a ?h "b * (c * m)" i "j * (c * m) + (k * m + r)"] l2 i r2
    by simp
  also have "\<dots> = ?g i j ! (k * m + r)"
    using nth_concat_map_upt [of b "\<lambda>j. ?g i j" "c * m" j "k * m + r"] l1 i j r1 by simp
  also have "\<dots> = f i j k ! r"
    using nth_concat_map_upt [of c "\<lambda>k. f i j k" m k r] len i j k r by simp
  finally show ?thesis by (simp only: idx)
qed

lemma upt_shift: "[lo..<lo + n] = map (\<lambda>i. lo + i) [0..<n]"
  using map_add_upt [of lo n] by (simp add: add.commute)

lemma stack_value:
  assumes "shape t1n = [x, y, z]" "shape t1c = [x, y, z]" "shape t2f = [x, y, z]"
    "shape t2w = [x, y, z]"
  shows "np_stack_axis3 [t1n, t1c, t2f, t2w] =
           Inr \<lparr>shape = [x, y, z, 4],
                data = concat (map (\<lambda>p. concat (map (\<lambda>a. chunk a 1 p) [t1n, t1c, t2f, t2w]))
                                   [0..<x * y * z])\<rparr>"
  using assms by (simp add: np_stack_axis3_def Let_def mult.assoc)

lemma stack_data:
  assumes "wf t1n" "wf t1c" "wf t2f" "wf t2w"
    and "shape t1n = [x, y, z]" "shape t1c = [x, y, z]" "shape t2f = [x, y, z]"
    "shape t2w = [x, y, z]"
    and "p < x * y * z"
  shows "concat (map (\<lambda>a. chunk a 1 p) [t1n, t1c, t2f, t2w]) =
         [data t1n ! p, data t1c ! p, data t2f ! p, data t2w ! p]"
proof -
  have "chunk a 1 p = [data a ! p]" if "length (data a) = x * y * z" for a :: "'a ndarray"
    using that assms(9) by (simp add: chunk_def take_Suc_conv_app_nth)
  then show ?thesis using assms by (simp add: wf_def mult.assoc)
qed

section \<open>Channel Combiner\<close>

lemma slice_range_inside:
  "lo \<le> hi \<Longrightarrow> hi \<le> n \<Longrightarrow> slice_range lo hi n = map (\<lambda>i. lo + i) [0..<hi - lo]"
  using upt_shift [of lo "hi - lo"] by (simp add: slice_range_def min_def)

lemma crop_value:
  assumes sh: "shape a = [x, y, z, c]" and x: "184 \<le> x" and y: "184 \<le> y" and z: "141 \<le> z"
  shows "crop a =
           Inr \<lparr>shape = [128, 128, 128, c],
                data = concat (map (\<lambda>i. concat (map (\<lambda>j. concat (map (\<lambda>k.
                         chunk a c (((56 + i) * y + (56 + j)) * z + (13 + k)))
                         [0..<128])) [0..<128])) [0..<128])\<rparr>"
proof -
  have sx: "slice_range 56 184 x = map (\<lambda>i. 56 + i) [0..<128]"
    using slice_range_inside [of 56 184 x] x by simp
  have sy: "slice_range 56 184 y = map (\<lambda>i. 56 + i) [0..<128]"
    using slice_range_inside [of 56 184 y] y by simp
  have sz: "slice_range 13 141 z = map (\<lambda>i. 13 + i) [0..<128]"
    using slice_range_inside [of 13 141 z] z by simp
  show ?thesis
    by (simp add: crop_def ndim_def sh Let_def sx sy sz comp_def del: upt_rec_numeral)
qed

text \<open>
  C2. For four volumes of one 3-dimensional shape (x, y, z) that contains the crop window
  (x and y at least 184, z at least 141), \<open>combine_channels\<close> returns an array of shape
  (128, 128, 128, 4) whose entry (i, j, k, ch) is entry (56 + i, 56 + j, 13 + k) of the
  volume number ch in the order T1n, T1c, T2f, T2w.
\<close>

theorem combine_channels_crop:
  assumes wf: "wf t1n" "wf t1c" "wf t2f" "wf t2w"
    and sh: "shape t1n = [x, y, z]" "shape t1c = [x, y, z]" "shape t2f = [x, y, z]"
      "shape t2w = [x, y, z]"
    and x: "184 \<le> x" and y: "184 \<le> y" and z: "141 \<le> z"
  shows "\<exists>c. combine_channels t1n t1c t2f t2w = Inr c \<and>
           shape c = [128, 128, 128, 4] \<and> wf c \<and>
           (\<forall>i<128. \<forall>j<128. \<forall>k<128. \<forall>ch<4.
              item c [i, j, k, ch] = item ([t1n, t1c, t2f, t2w] ! ch) [56 + i, 56 + j, 13 + k])"
proof -
  let ?arrs = "[t1n, t1c, t2f, t2w]"
  define g where "g = (\<lambda>p. concat (map (\<lambda>a. chunk a 1 p) ?arrs))"
  define st where "st = \<lparr>shape = [x, y, z, 4], data = concat (map g [0..<x * y * z])\<rparr>"
  define f where "f = (\<lambda>i j k. chunk st 4 (((56 + i) * y + (56 + j)) * z + (13 + k)))"
  define c where
    "c = \<lparr>shape = [128, 128, 128, 4],
          data = concat (map (\<lambda>i. concat (map (\<lambda>j. concat (map (\<lambda>k. f i j k)
                         [0..<128])) [0..<128])) [0..<128])\<rparr>"
  have stack: "np_stack_axis3 ?arrs = Inr st"
    using stack_value [OF sh] by (simp add: st_def g_def)
  have gval: "g p = [data t1n ! p, data t1c ! p, data t2f ! p, data t2w ! p]"
    if "p < x * y * z" for p
    unfolding g_def using wf sh that by (rule stack_data)
  then have glen: "length (g p) = 4" if "p < x * y * z" for p
    using that by simp
  have lenst: "length (data st) = x * y * z * 4"
    using length_concat_map_upt [of "x * y * z" g 4] glen by (simp add: st_def)
  have crop: "crop st = Inr c"
    using crop_value [of st x y z 4] x y z by (simp add: st_def c_def f_def)
  have comb: "combine_channels t1n t1c t2f t2w = Inr c"
    by (simp add: combine_channels_def stack crop)
  have inside: "((56 + i) * y + (56 + j)) * z + (13 + k) < x * y * z"
    if "i < 128" "j < 128" "k < 128" for i j k
  proof -
    have "56 + i < x" "56 + j < y" "13 + k < z" using that x y z by simp_all
    then show ?thesis by (intro flat_bound) auto
  qed
  have flen: "length (f i j k) = 4" if "i < 128" "j < 128" "k < 128" for i j k
    unfolding f_def using chunk_fits [OF inside [OF that] lenst] by (rule length_chunk)
  have wfc: "wf c"
    using length_concat3 [of 128 128 128 f 4] flen by (simp add: wf_def c_def)
  have vals: "item c [i, j, k, ch] = item (?arrs ! ch) [56 + i, 56 + j, 13 + k]"
    if b: "i < 128" "j < 128" "k < 128" and ch: "ch < 4" for i j k ch
  proof -
    let ?q = "((56 + i) * y + (56 + j)) * z + (13 + k)"
    have q: "?q < x * y * z" using b by (rule inside)
    have "item c [i, j, k, ch] = f i j k ! ch"
      using nth_concat3 [of 128 128 128 f 4 i j k ch] flen b ch
      by (simp add: item_def c_def flat_index4)
    also have "\<dots> = data st ! (?q * 4 + ch)"
      unfolding f_def using chunk_fits [OF q lenst] ch by (rule nth_chunk)
    also have "\<dots> = g ?q ! ch"
      using nth_concat_map_upt [of "x * y * z" g 4 ?q ch] glen q ch by (simp add: st_def)
    also have "\<dots> = map (\<lambda>a. data a ! ?q) ?arrs ! ch"
      by (simp only: gval [OF q] list.map)
    also have "\<dots> = data (?arrs ! ch) ! ?q"
      using ch by (intro nth_map) simp
    also have "\<dots> = item (?arrs ! ch) [56 + i, 56 + j, 13 + k]"
    proof -
      have "?arrs ! ch \<in> set ?arrs" using ch by (intro nth_mem) simp
      then have "shape (?arrs ! ch) = [x, y, z]" using sh by auto
      then show ?thesis by (simp add: item_def flat_index3)
    qed
    finally show ?thesis .
  qed
  from comb wfc vals show ?thesis by (auto simp: c_def)
qed

theorem combine_channels_crop_witness:
  "wf (constant_volume (1::nat)) \<and> shape (constant_volume (1::nat)) = [240, 240, 155] \<and>
   (184::nat) \<le> 240 \<and> (141::nat) \<le> 155 \<and>
   (\<exists>c. combine_channels (constant_volume (1::nat)) (constant_volume 2) (constant_volume 3)
          (constant_volume 4) = Inr c \<and>
        shape c = [128, 128, 128, 4] \<and> wf c \<and>
        item c [5, 6, 7, 2] = 3 \<and> item c [127, 127, 127, 3] = 4)"
proof -
  have w: "wf (constant_volume v)" for v :: nat
    by (simp add: wf_def constant_volume_def)
  have s: "shape (constant_volume v) = [240, 240, 155]" for v :: nat
    by (simp add: constant_volume_def)
  have i: "item (constant_volume v) [56 + 5, 56 + 6, 13 + 7] = v"
    "item (constant_volume v) [56 + 127, 56 + 127, 13 + 127] = v" for v :: nat
    by (simp_all add: item_def constant_volume_def flat_index_def)
  from combine_channels_crop [OF w w w w s s s s, of 1 2 3 4]
  obtain c where c: "combine_channels (constant_volume (1::nat)) (constant_volume 2)
      (constant_volume 3) (constant_volume 4) = Inr c"
    "shape c = [128, 128, 128, 4]" "wf c"
    "\<forall>i<128. \<forall>j<128. \<forall>k<128. \<forall>ch<4.
        item c [i, j, k, ch] =
        item ([constant_volume 1, constant_volume 2, constant_volume 3, constant_volume 4] ! ch)
          [56 + i, 56 + j, 13 + k]"
    by auto
  from c(4) have "item c [5, 6, 7, 2] = item (constant_volume 3) [56 + 5, 56 + 6, 13 + 7]"
    by (auto simp del: upt_rec_numeral)
  moreover from c(4) have
    "item c [127, 127, 127, 3] = item (constant_volume 4) [56 + 127, 56 + 127, 13 + 127]"
    by (auto simp del: upt_rec_numeral)
  ultimately show ?thesis using c(1-3) w s i by auto
qed

section \<open>Rank checks\<close>

lemma preprocess_nifti_shape:
  "snd (preprocess_nifti fs p) = Inr t \<Longrightarrow> \<exists>v. fs p = Inr v \<and> shape t = shape v"
  by (cases "fs p")
     (auto simp: preprocess_nifti_def io_bind_def io_emit_def io_lift_def io_raise_def
        io_return_def Let_def split: if_splits)

lemma combine_channels_rank:
  assumes "shape t1n = [x, y, z]" "shape t1c = [x, y, z]" "shape t2f = [x, y, z]"
    "shape t2w = [x, y, z]"
  shows "\<exists>c. combine_channels t1n t1c t2f t2w = Inr c \<and> length (shape c) = 4"
  using stack_value [OF assms]
  by (simp add: combine_channels_def crop_def ndim_def Let_def)

lemma run_segmentation_rank4:
  "length (shape input_image) = 4 \<Longrightarrow>
   list_all (\<lambda>e. e = Predict (expand_dims0 input_image))
     (fst (run_segmentation predict input_image))"
  by (auto simp: run_segmentation_def expand_dims0_def Let_def io_bind_def io_emit_def
      io_lift_def io_return_def split: sum.splits prod.splits)

lemma segment_no_shape_error:
  assumes a: "\<And>v. fs (the (t1n_path st)) = Inr v \<Longrightarrow> shape v = [x, y, z]"
    and b: "\<And>v. fs (the (t1c_path st)) = Inr v \<Longrightarrow> shape v = [x, y, z]"
    and c: "\<And>v. fs (the (t2f_path st)) = Inr v \<Longrightarrow> shape v = [x, y, z]"
    and d: "\<And>v. fs (the (t2w_path st)) = Inr v \<Longrightarrow> shape v = [x, y, z]"
  shows "list_all (\<lambda>e. \<not> shape_error e) (fst (segment fs predict st))"
proof -
  let ?P = "\<lambda>e. \<not> shape_error e"
  have pre: "list_all ?P (fst (preprocess_nifti fs q))" for q
    by (rule preprocess_nifti_events) (simp add: shape_error_def)
  have sh: "shape t = [x, y, z]"
    if "snd (preprocess_nifti fs q) = Inr t" and "\<And>v. fs q = Inr v \<Longrightarrow> shape v = [x, y, z]"
    for q t
  proof -
    from preprocess_nifti_shape [OF that(1)] obtain v where "fs q = Inr v" "shape t = shape v"
      by blast
    with that(2) show ?thesis by simp
  qed
  have tail: "list_all ?P (fst
       (if length (shape combined_image) \<noteq> 4
        then io_bind (io_emit (St_error_combined_shape (shape combined_image)))
              (\<lambda>_. io_return None)
        else io_bind (io_emit St_write_running)
              (\<lambda>_. io_bind (run_segmentation predict combined_image)
                     (\<lambda>segmentation_result.
                         io_return (Some (combined_image, segmentation_result))))))"
    if r: "length (shape combined_image) = 4" for combined_image
  proof -
    have "list_all ?P (fst (run_segmentation predict combined_image))"
      using run_segmentation_rank4 [OF r, of predict]
      by (auto simp: list_all_iff shape_error_def)
    then show ?thesis
      using r by (simp add: io_bind_events io_emit_events io_return_events shape_error_def)
  qed
  show ?thesis
    unfolding segment_def
  proof (rule io_bind_events [OF pre], rule io_bind_events [OF pre],
      rule io_bind_events [OF pre], rule io_bind_events [OF pre])
    fix t1n t1c t2f t2w
    assume "snd (preprocess_nifti fs (the (t1n_path st))) = Inr t1n"
      and "snd (preprocess_nifti fs (the (t1c_path st))) = Inr t1c"
      and "snd (preprocess_nifti fs (the (t2f_path st))) = Inr t2f"
      and "snd (preprocess_nifti fs (the (t2w_path st))) = Inr t2w"
    then have s: "shape t1n = [x, y, z]" "shape t1c = [x, y, z]" "shape t2f = [x, y, z]"
      "shape t2w = [x, y, z]"
      using sh a b c d by blast+
    show "list_all ?P (fst (io_bind (io_lift (combine_channels t1n t1c t2f t2w))
        (\<lambda>combined_image. io_bind (io_emit (St_write_shape (shape combined_image)))
          (\<lambda>_. if length (shape combined_image) \<noteq> 4
            then io_bind (io_emit (St_error_combined_shape (shape combined_image)))
              (\<lambda>_. io_return None)
            else io_bind (io_emit St_write_running)
              (\<lambda>_. io_bind (run_segmentation predict combined_image)
                     (\<lambda>segmentation_result.
                         io_return (Some (combined_image, segmentation_result))))))))"
    proof (rule io_bind_events [OF io_lift_events])
      fix combined_image
      assume "snd (io_lift (combine_channels t1n t1c t2f t2w)) = Inr combined_image"
      with combine_channels_rank [OF s] have r: "length (shape combined_image) = 4"
        by (auto simp: io_lift_def)
      show "list_all ?P (fst (io_bind (io_emit (St_write_shape (shape combined_image)))
          (\<lambda>_. if length (shape combined_image) \<noteq> 4
            then io_bind (io_emit (St_error_combined_shape (shape combined_image)))
              (\<lambda>_. io_return None)
            else io_bind (io_emit St_write_running)
              (\<lambda>_. io_bind (run_segmentation predict combined_image)
                     (\<lambda>segmentation_result.
                         io_return (Some (combined_image, segmentation_result)))))))"
        by (rule io_bind_events [OF io_emit_events]) (simp add: shape_error_def, rule tail [OF r])
    qed
  qed
qed

text \<open>
  C9. For four volumes of one 3-dimensional shape, \<open>combine_channels\<close> returns an array of
  exactly 4 dimensions, its batched form has exactly 5, and \<open>run_segmentation\<close> on it goes
  straight to the call of predict. In the handler, when the files bound to the four
  modalities hold volumes of one 3-dimensional shape, neither report of a wrong rank occurs.
\<close>

theorem rank_checks_never_fail:
  assumes sh: "shape t1n = [x, y, z]" "shape t1c = [x, y, z]" "shape t2f = [x, y, z]"
    "shape t2w = [x, y, z]"
  shows "(\<exists>c. combine_channels t1n t1c t2f t2w = Inr c \<and> ndim c = 4 \<and>
            ndim (expand_dims0 c) = 5 \<and>
            fst (run_segmentation predict c) = [Predict (expand_dims0 c)]) \<and>
         ((\<forall>m \<in> {T1n, T1c, T2f, T2w}. \<forall>p v.
              binding_of m (find_files walk) = Some p \<and> fs p = Inr v \<longrightarrow> shape v = [x, y, z]) \<longrightarrow>
          list_all (\<lambda>e. \<not> shape_error e) (fst (handler fs predict walk)))"
proof (intro conjI impI)
  from combine_channels_rank [OF sh] obtain c where
    c: "combine_channels t1n t1c t2f t2w = Inr c" "length (shape c) = 4" by blast
  have "fst (run_segmentation predict c) = [Predict (expand_dims0 c)]"
    using c(2)
    by (auto simp: run_segmentation_def expand_dims0_def Let_def io_bind_def io_emit_def
        io_lift_def io_return_def split: sum.splits prod.splits)
  with c show "\<exists>c. combine_channels t1n t1c t2f t2w = Inr c \<and> ndim c = 4 \<and>
            ndim (expand_dims0 c) = 5 \<and>
            fst (run_segmentation predict c) = [Predict (expand_dims0 c)]"
    by (auto simp: ndim_def expand_dims0_def)
next
  let ?P = "\<lambda>e. \<not> shape_error e"
  let ?st = "find_files walk"
  assume h: "\<forall>m \<in> {T1n, T1c, T2f, T2w}. \<forall>p v.
              binding_of m (find_files walk) = Some p \<and> fs p = Inr v \<longrightarrow> shape v = [x, y, z]"
  show "list_all ?P (fst (handler fs predict walk))"
  proof (cases "truthy (t1n_path ?st) \<and> truthy (t1c_path ?st) \<and> truthy (t2f_path ?st) \<and>
            truthy (t2w_path ?st)")
    case False
    then show ?thesis
      by (auto simp: handler_def Let_def io_emit_def shape_error_def)
  next
    case True
    have a: "shape v = [x, y, z]" if "fs (the (t1n_path ?st)) = Inr v" for v
      using True h [rule_format, of T1n "the (t1n_path ?st)" v] that
      by (auto simp: truthy_def split: option.splits)
    have b: "shape v = [x, y, z]" if "fs (the (t1c_path ?st)) = Inr v" for v
      using True h [rule_format, of T1c "the (t1c_path ?st)" v] that
      by (auto simp: truthy_def split: option.splits)
    have c: "shape v = [x, y, z]" if "fs (the (t2f_path ?st)) = Inr v" for v
      using True h [rule_format, of T2f "the (t2f_path ?st)" v] that
      by (auto simp: truthy_def split: option.splits)
    have d: "shape v = [x, y, z]" if "fs (the (t2w_path ?st)) = Inr v" for v
      using True h [rule_format, of T2w "the (t2w_path ?st)" v] that
      by (auto simp: truthy_def split: option.splits)
    have seg: "list_all ?P (fst (segment fs predict ?st))"
      using a b c d by (rule segment_no_shape_error)
    have pres: "list_all ?P (fst (present fs mp ci sr))" for mp ci sr
      by (rule present_events) (simp_all add: shape_error_def)
    have "list_all ?P (fst (io_bind (segment fs predict ?st) (\<lambda>r.
                case r of
                  None \<Rightarrow> io_return ()
                | Some (combined_image, segmentation_result) \<Rightarrow>
                    present fs (mask_path ?st) combined_image segmentation_result)))"
      using seg by (rule io_bind_events) (auto simp: io_return_events pres split: option.splits)
    with True show ?thesis
      by (simp add: handler_def Let_def)
  qed
qed

theorem rank_checks_never_fail_witness:
  "shape (constant_volume (1::real)) = [240, 240, 155] \<and>
   (\<exists>c. combine_channels (constant_volume (1::real)) (constant_volume 1) (constant_volume 1)
          (constant_volume 1) = Inr c \<and> ndim c = 4 \<and> ndim (expand_dims0 c) = 5 \<and>
        fst (run_segmentation refusing_model c) = [Predict (expand_dims0 c)]) \<and>
   list_all (\<lambda>e. \<not> shape_error e) (fst (handler uniform_fs refusing_model complete_walk))"
proof -
  have s: "shape (constant_volume (1::real)) = [240, 240, 155]"
    by (simp add: constant_volume_def)
  have h: "\<forall>m \<in> {T1n, T1c, T2f, T2w}. \<forall>p v.
      binding_of m (find_files complete_walk) = Some p \<and> uniform_fs p = Inr v \<longrightarrow>
      shape v = [240, 240, 155]"
    using s by (auto simp: uniform_fs_def)
  from rank_checks_never_fail [OF s s s s, of refusing_model complete_walk uniform_fs] h s
  show ?thesis by blast
qed

section \<open>Ground-Truth Adapter\<close>

lemma upt_4: "[0..<4] = [0, 1, 2, 3]"
  by (simp add: upt_rec numeral_eq_Suc)

lemma argmax_one_hot:
  "v < 4 \<Longrightarrow> argmax_list (map (\<lambda>c. if c = v then (1::real) else 0) [0..<4]) = v"
proof -
  assume "v < 4"
  then consider "v = 0" | "v = 1" | "v = 2" | "v = 3" by linarith
  then show ?thesis by cases (simp_all add: upt_4)
qed

lemma label_of_value:
  assumes "v \<in> {0, 1, 2, 4::real}"
  shows "unat (reassign (astype_uint8 v)) = (if v = 4 then 3 else nat \<lfloor>v\<rfloor>) \<and>
         unat (reassign (astype_uint8 v)) < 4"
  using assms by (auto simp: reassign_def astype_uint8_def)

lemma one_hot_rows:
  assumes "p < length labels"
  shows "map (\<lambda>c. concat (map (\<lambda>v. map (\<lambda>c. if c = v then (1::real) else 0) [0..<4]) labels)
                   ! (p * 4 + c)) [0..<4] =
         map (\<lambda>c. if c = labels ! p then 1 else 0) [0..<4]"
proof -
  let ?h = "\<lambda>v. map (\<lambda>c. if c = v then (1::real) else 0) [0..<4]"
  have "map (\<lambda>p. ?h (labels ! p)) [0..<length labels] =
        map ?h (map ((!) labels) [0..<length labels])"
    by (simp add: comp_def)
  also have "\<dots> = map ?h labels" by (simp only: map_nth)
  finally have eq: "concat (map ?h labels) =
      concat (map (\<lambda>p. ?h (labels ! p)) [0..<length labels])"
    by simp
  have "concat (map ?h labels) ! (p * 4 + c) = (if c = labels ! p then 1 else 0)"
    if "c < 4" for c
  proof -
    have "concat (map ?h labels) ! (p * 4 + c) = ?h (labels ! p) ! c"
      unfolding eq
      using nth_concat_map_upt [of "length labels" "\<lambda>p. ?h (labels ! p)" 4 p c] assms that
      by simp
    also have "\<dots> = (if c = labels ! p then 1 else 0)"
      using that by (simp del: upt_rec_numeral)
    finally show ?thesis .
  qed
  then show ?thesis by (intro map_cong refl) (simp del: upt_rec_numeral)
qed

lemma mask_argmax_value:
  assumes wfm: "wf m" and sh: "shape m = [x, y, z]" and z: "z \<noteq> 1"
    and vals: "\<forall>v \<in> set (data m). v \<in> {0, 1, 2, 4}"
  shows "mask_argmax m =
           Inr \<lparr>shape = [x, y, z], data = map (\<lambda>v. unat (reassign (astype_uint8 v))) (data m)\<rparr>"
proof -
  let ?n = "x * y * z"
  define labels where "labels = map (\<lambda>v. unat (reassign (astype_uint8 v))) (data m)"
  define cat :: "real ndarray" where
    "cat = \<lparr>shape = [x, y, z, 4],
            data = concat (map (\<lambda>v. map (\<lambda>c. if c = v then 1 else 0) [0..<4]) labels)\<rparr>"
  define out :: "nat ndarray" where "out = \<lparr>shape = [x, y, z], data = labels\<rparr>"
  have len: "length labels = ?n"
    using wfm by (simp add: labels_def wf_def sh mult.assoc)
  have small: "v < 4" if "v \<in> set labels" for v
    using that vals label_of_value by (auto simp: labels_def)
  have ok: "\<not> list_ex (\<lambda>v. 4 \<le> v) labels"
    by (auto simp: list_ex_iff dest!: small)
  have tc: "to_categorical
      \<lparr>shape = [x, y, z], data = map reassign (map astype_uint8 (data m))\<rparr> 4 = Inr cat"
    using ok z by (simp add: to_categorical_def Let_def cat_def labels_def comp_def)
  have "concat (map (\<lambda>p. map (\<lambda>r. argmax_list
            (map (\<lambda>c. data cat ! ((p * 4 + c) * 1 + r)) [0..<4])) [0..<1]) [0..<?n]) =
        map (\<lambda>p. labels ! p) [0..<?n]"
  proof -
    have "argmax_list (map (\<lambda>c. data cat ! (p * 4 + c)) [0..<4]) = labels ! p"
      if "p < ?n" for p
    proof -
      have "p < length labels" using that len by simp
      then have "map (\<lambda>c. data cat ! (p * 4 + c)) [0..<4] =
                 map (\<lambda>c. if c = labels ! p then 1 else 0) [0..<4]"
        unfolding cat_def using one_hot_rows [of p labels] by simp
      moreover have "labels ! p < 4"
        using small \<open>p < length labels\<close> by simp
      ultimately show ?thesis by (simp only: argmax_one_hot)
    qed
    then show ?thesis by simp
  qed
  also have "\<dots> = labels"
    using map_nth [of labels] len by simp
  finally have am: "np_argmax 3 cat = Inr out"
    by (simp add: np_argmax_def ndim_def cat_def out_def Let_def mult.assoc)
  show ?thesis
    using tc am by (simp add: mask_argmax_def Let_def sh out_def labels_def)
qed

text \<open>
  C4 (as amended). For an annotation volume of shape (x, y, z) with z other than 1 and values
  among 0, 1, 2 and 4, the adapter returns a label volume of the same shape: one-hot
  encoding over 4 classes followed by argmax gives back exactly the remapped labels, every
  4 has become 3, the labels 0, 1 and 2 are kept, and all values are among 0, 1, 2, 3.
\<close>

theorem mask_argmax_remap:
  assumes wfm: "wf m" and sh: "shape m = [x, y, z]" and z: "z \<noteq> 1"
    and vals: "\<forall>v \<in> set (data m). v \<in> {0, 1, 2, 4}"
  shows "\<exists>out. mask_argmax m = Inr out \<and> shape out = shape m \<and> wf out \<and>
           data out = map (\<lambda>v. unat (reassign (astype_uint8 v))) (data m) \<and>
           (\<forall>i<x. \<forall>j<y. \<forall>k<z.
              item out [i, j, k] \<in> {0, 1, 2, 3} \<and>
              real (item out [i, j, k]) = (if item m [i, j, k] = 4 then 3 else item m [i, j, k]))"
proof -
  define out :: "nat ndarray" where
    "out = \<lparr>shape = [x, y, z], data = map (\<lambda>v. unat (reassign (astype_uint8 v))) (data m)\<rparr>"
  have run: "mask_argmax m = Inr out"
    unfolding out_def using wfm sh z vals by (rule mask_argmax_value)
  have wfo: "wf out" using wfm by (simp add: wf_def out_def sh)
  have each: "item out [i, j, k] \<in> {0, 1, 2, 3} \<and>
              real (item out [i, j, k]) = (if item m [i, j, k] = 4 then 3 else item m [i, j, k])"
    if "i < x" "j < y" "k < z" for i j k
  proof -
    let ?p = "(i * y + j) * z + k"
    have p: "?p < x * y * z" using that by (intro flat_bound) auto
    then have pl: "?p < length (data m)" using wfm by (simp add: wf_def sh mult.assoc)
    then have mem: "data m ! ?p \<in> {0, 1, 2, 4}" using vals by (meson nth_mem)
    have o: "item out [i, j, k] = unat (reassign (astype_uint8 (data m ! ?p)))"
      using pl by (simp add: item_def out_def flat_index3)
    have i: "item m [i, j, k] = data m ! ?p"
      by (simp add: item_def sh flat_index3)
    from mem label_of_value [OF mem] show ?thesis
      unfolding o i by auto
  qed
  from run wfo each show ?thesis by (auto simp: out_def sh)
qed

theorem mask_argmax_remap_witness:
  "wf annotation \<and> shape annotation = [1, 2, 2] \<and> set (data annotation) = {0, 1, 2, 4} \<and>
   (\<exists>out. mask_argmax annotation = Inr out \<and> shape out = [1, 2, 2] \<and> wf out \<and>
      data out = [0, 1, 2, 3])"
proof -
  have w: "wf annotation" by (simp add: wf_def annotation_def)
  have s: "shape annotation = [1, 2, 2]" by (simp add: annotation_def)
  have d: "data annotation = [0, 1, 2, 4]" by (simp add: annotation_def)
  have v: "\<forall>v \<in> set (data annotation). v \<in> {0, 1, 2, 4}" by (simp add: d)
  have m: "map (\<lambda>v. unat (reassign (astype_uint8 v))) (data annotation) = [0, 1, 2, 3]"
    by (simp add: d reassign_def astype_uint8_def)
  from mask_argmax_remap [OF w s _ v] obtain out where
    "mask_argmax annotation = Inr out" "shape out = shape annotation" "wf out"
    "data out = map (\<lambda>v. unat (reassign (astype_uint8 v))) (data annotation)"
    by auto
  with w s d m show ?thesis by auto
qed

text \<open>
  C4 as stated fails on a single slice: for shape (2, 2, 1) \<open>to_categorical\<close> drops the last
  axis, the one-hot array has shape (2, 2, 4), and argmax along axis 3 raises.
\<close>

theorem mask_argmax_single_slice_counterexample:
  "mask_argmax single_slice_annotation = Inl AxisError"
  by (simp add: mask_argmax_def single_slice_annotation_def to_categorical_def Let_def
      astype_uint8_def reassign_def np_argmax_def ndim_def)

section \<open>What the ground truth can change\<close>

lemma saved_silent: "list_all (\<lambda>e. saved_of e = []) es \<Longrightarrow> saved es = []"
  by (induction es) (simp_all add: saved_def)

lemma saved_io_bind:
  "saved (fst (io_bind m f)) =
     saved (fst m) @ (case snd m of Inl e \<Rightarrow> [] | Inr x \<Rightarrow> saved (fst (f x)))"
  by (cases m) (auto simp: io_bind_def saved_def split: sum.splits prod.splits)

lemma saved_io_bind_silent:
  "list_all (\<lambda>e. saved_of e = []) (fst m) \<Longrightarrow>
   saved (fst (io_bind m f)) = (case snd m of Inl e \<Rightarrow> [] | Inr x \<Rightarrow> saved (fst (f x)))"
  by (simp add: saved_io_bind saved_silent)

lemma saved_save_result:
  "saved (fst (save_result sr)) = (case sr of None \<Rightarrow> [] | Some r \<Rightarrow> [astype_float32 r])"
  by (simp add: save_result_def io_bind_def io_emit_def io_raise_def saved_def
      split: option.splits)

lemma saved_present:
  "saved (fst (present fs mask_file combined_image sr)) = [] \<or>
   (\<exists>r. sr = Some r \<and>
      saved (fst (present fs mask_file combined_image sr)) = [astype_float32 r])"
proof -
  have a: "list_all (\<lambda>e. saved_of e = []) (fst (io_emit St_write_completed))"
    "list_all (\<lambda>e. saved_of e = []) (fst (io_emit St_pyplot))"
    by (simp_all add: io_emit_def)
  have b: "list_all (\<lambda>e. saved_of e = []) (fst (load_mask fs mask_file))"
    by (rule load_mask_events) simp
  have c: "list_all (\<lambda>e. saved_of e = [])
      (fst (plot_rows combined_image sr mask_file mask_am rows))" for mask_am rows
    by (rule plot_rows_events) simp_all
  show ?thesis
    unfolding present_def
    by (simp add: saved_io_bind_silent a b c saved_save_result
        split: sum.splits option.splits)
qed

lemma saved_handler:
  "saved (fst (handler fs predict walk)) = [] \<or>
   (\<exists>c r. snd (segment fs predict (find_files walk)) = Inr (Some (c, Some r)) \<and>
      saved (fst (handler fs predict walk)) = [astype_float32 r])"
proof -
  have s: "list_all (\<lambda>e. saved_of e = []) (fst (segment fs predict (find_files walk)))"
    by (rule segment_events) simp_all
  have miss: "saved (fst (io_emit St_error_missing_files)) = []"
    by (simp add: io_emit_def saved_def)
  have ret: "saved (fst (io_return ())) = []"
    by (simp add: io_return_def saved_def)
  show ?thesis
  proof (cases "snd (segment fs predict (find_files walk))")
    case (Inl e)
    then show ?thesis
      by (simp add: handler_def Let_def saved_io_bind_silent [OF s] miss)
  next
    case (Inr r)
    show ?thesis
    proof (cases r)
      case None
      with Inr show ?thesis
        by (simp add: handler_def Let_def saved_io_bind_silent [OF s] miss ret)
    next
      case (Some cr)
      obtain c sr where cr: "cr = (c, sr)" by (cases cr)
      from saved_present [of fs "mask_path (find_files walk)" c sr] Inr Some cr
      show ?thesis
        by (auto simp: handler_def Let_def saved_io_bind_silent [OF s] miss)
    qed
  qed
qed

lemma preprocess_nifti_cong:
  "fs1 p = fs2 p \<Longrightarrow> preprocess_nifti fs1 p = preprocess_nifti fs2 p"
  by (simp add: preprocess_nifti_def io_bind_def io_lift_def)

section \<open>A run that reaches packaging\<close>

lemma snd_io_bind:
  "snd (io_bind m f) = (case snd m of Inl e \<Rightarrow> Inl e | Inr x \<Rightarrow> snd (f x))"
  by (cases m) (auto simp: io_bind_def split: sum.splits prod.splits)

lemma rotated_image_slice_ok:
  "shape a = [x, y, z, c] \<Longrightarrow> n < z \<Longrightarrow> 0 < c \<Longrightarrow> \<exists>s. rotated_image_slice a n = Inr s"
  by (simp add: rotated_image_slice_def slice_depth_channel0_def np_rot90_def ndim_def Let_def)

lemma rotated_slice_ok:
  "shape a = [x, y, z] \<Longrightarrow> n < z \<Longrightarrow> \<exists>s. rotated_slice a n = Inr s"
  by (simp add: rotated_slice_def slice_depth_def np_rot90_def ndim_def Let_def)

lemma plot_row_ok:
  assumes "shape ci = [x, y, z, c]" "n < z" "0 < c" "shape r = [x', y', z']" "n < z'"
  shows "snd (plot_row ci (Some r) None None (i, n)) = Inr ()"
proof -
  from rotated_image_slice_ok [OF assms(1-3)] obtain s where s: "rotated_image_slice ci n = Inr s"
    by blast
  from rotated_slice_ok [OF assms(4,5)] obtain t where t: "rotated_slice r n = Inr t"
    by blast
  show ?thesis
    by (simp add: plot_row_def snd_io_bind s t io_lift_def io_emit_def truthy_def)
qed

lemma plot_rows_ok:
  assumes "shape ci = [x, y, z, c]" "0 < c" "shape r = [x', y', z']"
    and "\<forall>row \<in> set rows. snd row < z \<and> snd row < z'"
  shows "snd (plot_rows ci (Some r) None None rows) = Inr ()"
  using assms(4)
proof (induction rows)
  case Nil
  then show ?case by (simp add: io_return_def)
next
  case (Cons row rows)
  obtain i n where row: "row = (i, n)" by (cases row)
  with Cons.prems have "n < z" "n < z'" by simp_all
  from plot_row_ok [OF assms(1) this(1) assms(2,3) this(2), of i] Cons show ?case
    by (simp add: snd_io_bind row)
qed

lemma saved_present_ok:
  assumes "shape ci = [x, y, 128, c]" "0 < c" "shape r = [x', y', 128]"
  shows "saved (fst (present fs None ci (Some r))) = [astype_float32 r]"
proof -
  have a: "list_all (\<lambda>e. saved_of e = []) (fst (io_emit St_write_completed))"
    "list_all (\<lambda>e. saved_of e = []) (fst (io_emit St_pyplot))"
    by (simp_all add: io_emit_def)
  have b: "list_all (\<lambda>e. saved_of e = []) (fst (load_mask fs None))"
    by (rule load_mask_events) simp
  have c: "list_all (\<lambda>e. saved_of e = [])
      (fst (plot_rows ci (Some r) None mask_am rows))" for mask_am rows
    by (rule plot_rows_events) simp_all
  have rows: "zip [0..<length slice_indices] slice_indices = [(0, 75), (1, 90), (2, 100)]"
    by (simp add: slice_indices_def upt_rec numeral_eq_Suc)
  have p: "snd (plot_rows ci (Some r) None None
             (zip [0..<length slice_indices] slice_indices)) = Inr ()"
    unfolding rows by (rule plot_rows_ok [OF assms]) simp
  have l: "snd (load_mask fs None) = Inr None"
    by (simp add: load_mask_def truthy_def io_return_def)
  show ?thesis
    unfolding present_def
    by (simp add: saved_io_bind_silent a b c saved_save_result l p io_emit_def)
qed

lemma preprocess_nifti_ok:
  assumes "fs p = Inr v" "shape v = [x, y, z]" "0 < x" "0 < y" "0 < z"
  shows "\<exists>t. snd (preprocess_nifti fs p) = Inr t \<and> shape t = [x, y, z]"
proof -
  have "prod_list (shape v) div z = x * y" using assms by simp
  moreover have "0 < x * y" using assms by simp
  ultimately show ?thesis
    using assms
    by (simp add: preprocess_nifti_def snd_io_bind io_emit_def io_lift_def io_return_def
        Let_def del: prod_list.Cons)
qed

lemma combine_channels_shape:
  assumes sh: "shape t1n = [x, y, z]" "shape t1c = [x, y, z]" "shape t2f = [x, y, z]"
    "shape t2w = [x, y, z]"
    and b: "184 \<le> x" "184 \<le> y" "141 \<le> z"
  shows "\<exists>c. combine_channels t1n t1c t2f t2w = Inr c \<and> shape c = [128, 128, 128, 4]"
proof -
  let ?st = "\<lparr>shape = [x, y, z, 4],
               data = concat (map (\<lambda>p. concat (map (\<lambda>a. chunk a 1 p) [t1n, t1c, t2f, t2w]))
                                  [0..<x * y * z])\<rparr>"
  have "shape ?st = [x, y, z, 4]" by simp
  from crop_value [OF this b] stack_value [OF sh] show ?thesis
    by (simp add: combine_channels_def)
qed

lemma segment_ok:
  assumes f: "fs (the (t1n_path st)) = Inr v1" "fs (the (t1c_path st)) = Inr v2"
      "fs (the (t2f_path st)) = Inr v3" "fs (the (t2w_path st)) = Inr v4"
    and sh: "shape v1 = [x, y, z]" "shape v2 = [x, y, z]" "shape v3 = [x, y, z]"
      "shape v4 = [x, y, z]"
    and b: "184 \<le> x" "184 \<le> y" "141 \<le> z"
    and pr: "\<forall>inp. \<exists>p b k. predict inp = Inr p \<and> shape p = [b, 128, 128, 128, k] \<and>
                0 < b \<and> 0 < k"
  shows "\<exists>c r. snd (segment fs predict st) = Inr (Some (c, Some r)) \<and>
           shape c = [128, 128, 128, 4] \<and> shape r = [128, 128, 128]"
proof -
  have pos: "0 < x" "0 < y" "0 < z" using b by simp_all
  from preprocess_nifti_ok [of fs "the (t1n_path st)", OF f(1) sh(1) pos] obtain t1 where
    t1: "snd (preprocess_nifti fs (the (t1n_path st))) = Inr t1" "shape t1 = [x, y, z]" by blast
  from preprocess_nifti_ok [of fs "the (t1c_path st)", OF f(2) sh(2) pos] obtain t2 where
    t2: "snd (preprocess_nifti fs (the (t1c_path st))) = Inr t2" "shape t2 = [x, y, z]" by blast
  from preprocess_nifti_ok [of fs "the (t2f_path st)", OF f(3) sh(3) pos] obtain t3 where
    t3: "snd (preprocess_nifti fs (the (t2f_path st))) = Inr t3" "shape t3 = [x, y, z]" by blast
  from preprocess_nifti_ok [of fs "the (t2w_path st)", OF f(4) sh(4) pos] obtain t4 where
    t4: "snd (preprocess_nifti fs (the (t2w_path st))) = Inr t4" "shape t4 = [x, y, z]" by blast
  from combine_channels_shape [OF t1(2) t2(2) t3(2) t4(2) b] obtain c where
    c: "combine_channels t1 t2 t3 t4 = Inr c" "shape c = [128, 128, 128, 4]" by blast
  from pr obtain p bb k where
    p: "predict (expand_dims0 c) = Inr p" "shape p = [bb, 128, 128, 128, k]" "0 < bb" "0 < k"
    by blast
  have "ndim c = 4" using c(2) by (simp add: ndim_def)
  from run_segmentation_value [of p bb 128 128 128 k c predict, OF p(2,3,4) this p(1)]
  obtain r where
    r: "snd (run_segmentation predict c) = Inr (Some r)" "shape r = [128, 128, 128]"
    by simp
  have "snd (segment fs predict st) = Inr (Some (c, Some r))"
    by (simp add: segment_def snd_io_bind t1 t2 t3 t4 c r io_lift_def io_emit_def
        io_return_def)
  with c(2) r(2) show ?thesis by blast
qed

lemma handler_saves:
  assumes t: "truthy (t1n_path (find_files walk))" "truthy (t1c_path (find_files walk))"
      "truthy (t2f_path (find_files walk))" "truthy (t2w_path (find_files walk))"
    and m: "mask_path (find_files walk) = None"
    and s: "snd (segment fs predict (find_files walk)) = Inr (Some (c, Some r))"
      "shape c = [128, 128, 128, 4]" "shape r = [128, 128, 128]"
  shows "saved (fst (handler fs predict walk)) = [astype_float32 r]"
proof -
  have sil: "list_all (\<lambda>e. saved_of e = []) (fst (segment fs predict (find_files walk)))"
    by (rule segment_events) simp_all
  from saved_present_ok [OF s(2) _ s(3), of fs] t m s(1) show ?thesis
    by (simp add: handler_def Let_def saved_io_bind_silent [OF sil])
qed

lemma handler_mask_unreadable:
  assumes t: "truthy (t1n_path (find_files walk))" "truthy (t1c_path (find_files walk))"
      "truthy (t2f_path (find_files walk))" "truthy (t2w_path (find_files walk))"
    and m: "mask_path (find_files walk) = Some p" "p \<noteq> []" "fs p = Inl e"
    and s: "snd (segment fs predict (find_files walk)) = Inr (Some (c, sr))"
  shows "saved (fst (handler fs predict walk)) = [] \<and> snd (handler fs predict walk) = Inl e"
proof -
  have sil: "list_all (\<lambda>e. saved_of e = []) (fst (segment fs predict (find_files walk)))"
    by (rule segment_events) simp_all
  have a: "list_all (\<lambda>e. saved_of e = []) (fst (io_emit St_write_completed))"
    by (simp add: io_emit_def)
  have b: "list_all (\<lambda>e. saved_of e = []) (fst (load_mask fs (Some p)))"
    by (rule load_mask_events) simp
  have l: "snd (load_mask fs (Some p)) = Inl e"
    using m by (simp add: load_mask_def truthy_def snd_io_bind io_emit_def io_lift_def)
  have "saved (fst (present fs (Some p) c sr)) = []"
    unfolding present_def by (simp add: saved_io_bind_silent a b l io_emit_def)
  moreover have "snd (present fs (Some p) c sr) = Inl e"
    unfolding present_def by (simp add: snd_io_bind l io_emit_def)
  ultimately show ?thesis
    using t m(1) s
    by (simp add: handler_def Let_def saved_io_bind_silent [OF sil] snd_io_bind)
qed

lemma find_files_complete_walk:
  "find_files complete_walk =
     \<lparr>t1n_path = Some ''/tmp/x/case/a-t1n.nii.gz'', t1c_path = Some ''/tmp/x/case/a-t1c.nii.gz'',
      t2f_path = Some ''/tmp/x/case/a-t2f.nii.gz'', t2w_path = Some ''/tmp/x/case/a-t2w.nii.gz'',
      mask_path = None\<rparr>"
  by (simp add: find_files_def complete_walk_def scan_file_def endswith_def path_join_def
      not_found_def)

lemma find_files_seg_walk:
  "find_files seg_walk =
     \<lparr>t1n_path = Some ''/tmp/x/case/a-t1n.nii.gz'', t1c_path = Some ''/tmp/x/case/a-t1c.nii.gz'',
      t2f_path = Some ''/tmp/x/case/a-t2f.nii.gz'', t2w_path = Some ''/tmp/x/case/a-t2w.nii.gz'',
      mask_path = Some ''/tmp/x/case/a-seg.nii.gz''\<rparr>"
  by (simp add: find_files_def seg_walk_def scan_file_def endswith_def path_join_def
      not_found_def)

lemma broken_seg_fs_files:
  "broken_seg_fs ''/tmp/x/case/a-t1n.nii.gz'' = Inr (constant_volume 1)"
  "broken_seg_fs ''/tmp/x/case/a-t1c.nii.gz'' = Inr (constant_volume 1)"
  "broken_seg_fs ''/tmp/x/case/a-t2f.nii.gz'' = Inr (constant_volume 1)"
  "broken_seg_fs ''/tmp/x/case/a-t2w.nii.gz'' = Inr (constant_volume 1)"
  "broken_seg_fs ''/tmp/x/case/a-seg.nii.gz'' = Inl ImageFileError"
  by (simp_all add: broken_seg_fs_def endswith_def)

lemma stub_model_answers:
  "\<forall>inp. \<exists>p b k. stub_model inp = Inr p \<and> shape p = [b, 128, 128, 128, k] \<and> 0 < b \<and> 0 < k"
  by (simp add: stub_model_def)

lemma shape_constant_volume: "shape (constant_volume v) = [240, 240, 155]"
  by (simp add: constant_volume_def)

text \<open>
  C10 as stated fails: with the same four modality files and the same model, the run
  without a ground-truth file writes its output file, and the run whose \<open>seg.nii.gz\<close>
  cannot be read stops at the loading of the mask, before anything is written.
\<close>

theorem ground_truth_aborts_packaging_counterexample:
  "binding_of T1n (find_files seg_walk) = binding_of T1n (find_files complete_walk) \<and>
   binding_of T1c (find_files seg_walk) = binding_of T1c (find_files complete_walk) \<and>
   binding_of T2f (find_files seg_walk) = binding_of T2f (find_files complete_walk) \<and>
   binding_of T2w (find_files seg_walk) = binding_of T2w (find_files complete_walk) \<and>
   saved (fst (handler broken_seg_fs stub_model complete_walk)) \<noteq> [] \<and>
   saved (fst (handler broken_seg_fs stub_model seg_walk)) = [] \<and>
   snd (handler broken_seg_fs stub_model seg_walk) = Inl ImageFileError \<and>
   saved (fst (handler broken_seg_fs stub_model seg_walk)) \<noteq>
     saved (fst (handler broken_seg_fs stub_model complete_walk))"
proof -
  note sh = shape_constant_volume [of "1::real"]
  have t1: "truthy (t1n_path (find_files complete_walk))"
    "truthy (t1c_path (find_files complete_walk))"
    "truthy (t2f_path (find_files complete_walk))"
    "truthy (t2w_path (find_files complete_walk))"
    by (simp_all add: find_files_complete_walk truthy_def)
  have t2: "truthy (t1n_path (find_files seg_walk))"
    "truthy (t1c_path (find_files seg_walk))"
    "truthy (t2f_path (find_files seg_walk))"
    "truthy (t2w_path (find_files seg_walk))"
    by (simp_all add: find_files_seg_walk truthy_def)
  have f1: "broken_seg_fs (the (t1n_path (find_files complete_walk))) = Inr (constant_volume 1)"
    "broken_seg_fs (the (t1c_path (find_files complete_walk))) = Inr (constant_volume 1)"
    "broken_seg_fs (the (t2f_path (find_files complete_walk))) = Inr (constant_volume 1)"
    "broken_seg_fs (the (t2w_path (find_files complete_walk))) = Inr (constant_volume 1)"
    by (simp_all add: find_files_complete_walk broken_seg_fs_files)
  have f2: "broken_seg_fs (the (t1n_path (find_files seg_walk))) = Inr (constant_volume 1)"
    "broken_seg_fs (the (t1c_path (find_files seg_walk))) = Inr (constant_volume 1)"
    "broken_seg_fs (the (t2f_path (find_files seg_walk))) = Inr (constant_volume 1)"
    "broken_seg_fs (the (t2w_path (find_files seg_walk))) = Inr (constant_volume 1)"
    by (simp_all add: find_files_seg_walk broken_seg_fs_files)
  from segment_ok [of broken_seg_fs "find_files complete_walk" _ _ _ _ _ _ _ stub_model,
      OF f1 sh sh sh sh _ _ _ stub_model_answers]
  obtain c r where s1:
    "snd (segment broken_seg_fs stub_model (find_files complete_walk)) = Inr (Some (c, Some r))"
    "shape c = [128, 128, 128, 4]" "shape r = [128, 128, 128]"
    by auto
  have m1: "mask_path (find_files complete_walk) = None"
    by (simp add: find_files_complete_walk)
  have a: "saved (fst (handler broken_seg_fs stub_model complete_walk)) = [astype_float32 r]"
    using t1 m1 s1 by (rule handler_saves)
  from segment_ok [of broken_seg_fs "find_files seg_walk" _ _ _ _ _ _ _ stub_model,
      OF f2 sh sh sh sh _ _ _ stub_model_answers]
  obtain c' r' where s2:
    "snd (segment broken_seg_fs stub_model (find_files seg_walk)) = Inr (Some (c', Some r'))"
    by auto
  have m2: "mask_path (find_files seg_walk) = Some ''/tmp/x/case/a-seg.nii.gz''"
    by (simp add: find_files_seg_walk)
  have b: "saved (fst (handler broken_seg_fs stub_model seg_walk)) = [] \<and>
           snd (handler broken_seg_fs stub_model seg_walk) = Inl ImageFileError"
    using t2 m2 _ broken_seg_fs_files(5) s2 by (rule handler_mask_unreadable) simp
  from a b show ?thesis
    by (simp add: find_files_complete_walk find_files_seg_walk)
qed

section \<open>A run with a readable ground truth\<close>

lemma plot_row_mask_ok:
  assumes "shape ci = [x, y, z, c]" "n < z" "0 < c" "shape r = [x', y', z']" "n < z'"
    and "p \<noteq> []" "shape am = [x'', y'', z'']" "n < z''"
  shows "snd (plot_row ci (Some r) (Some p) (Some am) (i, n)) = Inr ()"
proof -
  from rotated_image_slice_ok [OF assms(1-3)] obtain s where s: "rotated_image_slice ci n = Inr s"
    by blast
  from rotated_slice_ok [OF assms(4,5)] obtain t where t: "rotated_slice r n = Inr t"
    by blast
  from rotated_slice_ok [OF assms(7,8)] obtain u where u: "rotated_slice am n = Inr u"
    by blast
  show ?thesis
    using assms(6)
    by (simp add: plot_row_def snd_io_bind s t u io_lift_def io_emit_def truthy_def)
qed

lemma plot_rows_mask_ok:
  assumes "shape ci = [x, y, z, c]" "0 < c" "shape r = [x', y', z']"
    and "p \<noteq> []" "shape am = [x'', y'', z'']"
    and "\<forall>row \<in> set rows. snd row < z \<and> snd row < z' \<and> snd row < z''"
  shows "snd (plot_rows ci (Some r) (Some p) (Some am) rows) = Inr ()"
  using assms(6)
proof (induction rows)
  case Nil
  then show ?case by (simp add: io_return_def)
next
  case (Cons row rows)
  obtain i n where row: "row = (i, n)" by (cases row)
  with Cons.prems have n: "n < z" "n < z'" "n < z''" by simp_all
  from plot_row_mask_ok [OF assms(1) n(1) assms(2,3) n(2) assms(4,5) n(3), of i] Cons
  show ?case by (simp add: snd_io_bind row)
qed

lemma saved_present_mask_ok:
  assumes "shape ci = [x, y, 128, c]" "0 < c" "shape r = [x', y', 128]"
    and "p \<noteq> []" "fs p = Inr mk" "mask_argmax mk = Inr am" "shape am = [x'', y'', z'']"
      "100 < z''"
  shows "saved (fst (present fs (Some p) ci (Some r))) = [astype_float32 r]"
proof -
  have a: "list_all (\<lambda>e. saved_of e = []) (fst (io_emit St_write_completed))"
    "list_all (\<lambda>e. saved_of e = []) (fst (io_emit St_pyplot))"
    by (simp_all add: io_emit_def)
  have b: "list_all (\<lambda>e. saved_of e = []) (fst (load_mask fs (Some p)))"
    by (rule load_mask_events) simp
  have c: "list_all (\<lambda>e. saved_of e = [])
      (fst (plot_rows ci (Some r) (Some p) mask_am rows))" for mask_am rows
    by (rule plot_rows_events) simp_all
  have rows: "zip [0..<length slice_indices] slice_indices = [(0, 75), (1, 90), (2, 100)]"
    by (simp add: slice_indices_def upt_rec numeral_eq_Suc)
  have p: "snd (plot_rows ci (Some r) (Some p) (Some am)
             (zip [0..<length slice_indices] slice_indices)) = Inr ()"
    unfolding rows using assms(8) by (intro plot_rows_mask_ok [OF assms(1-4,7)]) simp
  have l: "snd (load_mask fs (Some p)) = Inr (Some am)"
    using assms(4,5,6)
    by (simp add: load_mask_def truthy_def snd_io_bind io_emit_def io_lift_def io_return_def)
  show ?thesis
    unfolding present_def
    by (simp add: saved_io_bind_silent a b c saved_save_result l p io_emit_def)
qed

lemma handler_saves_with_mask:
  assumes t: "truthy (t1n_path (find_files walk))" "truthy (t1c_path (find_files walk))"
      "truthy (t2f_path (find_files walk))" "truthy (t2w_path (find_files walk))"
    and m: "mask_path (find_files walk) = Some p" "p \<noteq> []" "fs p = Inr mk"
      "mask_argmax mk = Inr am" "shape am = [x'', y'', z'']" "100 < z''"
    and s: "snd (segment fs predict (find_files walk)) = Inr (Some (c, Some r))"
      "shape c = [128, 128, 128, 4]" "shape r = [128, 128, 128]"
  shows "saved (fst (handler fs predict walk)) = [astype_float32 r]"
proof -
  have sil: "list_all (\<lambda>e. saved_of e = []) (fst (segment fs predict (find_files walk)))"
    by (rule segment_events) simp_all
  have "saved (fst (present fs (Some p) c (Some r))) = [astype_float32 r]"
    using s(2) _ s(3) m(2,3,4,5,6) by (rule saved_present_mask_ok) simp
  with t m(1) s(1) show ?thesis
    by (simp add: handler_def Let_def saved_io_bind_silent [OF sil])
qed

section \<open>Rounding to float64\<close>

text \<open>The binade of a number.\<close>

lemma floor_log2_eq:
  assumes "2 powr of_int e \<le> x" "x < 2 powr of_int (e + 1)"
  shows "\<lfloor>log 2 x\<rfloor> = e"
proof -
  have x: "0 < x" using assms(1) powr_gt_zero [of 2 "of_int e"] by linarith
  have "of_int e \<le> log 2 x" using assms(1) x by (simp add: le_log_iff)
  moreover have "log 2 x < of_int (e + 1)" using assms(2) x by (simp add: log_less_iff)
  ultimately show ?thesis by (intro floor_unique) simp_all
qed

lemma floor_log2_bounds:
  assumes "0 < x"
  shows "2 powr of_int \<lfloor>log 2 x\<rfloor> \<le> x \<and> x < 2 powr of_int (\<lfloor>log 2 x\<rfloor> + 1)"
proof -
  have "of_int \<lfloor>log 2 x\<rfloor> \<le> log 2 x" by simp
  then have a: "2 powr of_int \<lfloor>log 2 x\<rfloor> \<le> x"
    using assms by (simp add: powr_le_iff)
  have "log 2 x < of_int (\<lfloor>log 2 x\<rfloor> + 1)" by linarith
  then have b: "x < 2 powr of_int (\<lfloor>log 2 x\<rfloor> + 1)"
    using assms by (simp add: less_powr_iff)
  from a b show ?thesis ..
qed

lemma floor_log2_floor:
  assumes "1 \<le> x"
  shows "\<lfloor>log 2 (real (nat \<lfloor>x\<rfloor>))\<rfloor> = \<lfloor>log 2 x\<rfloor>"
proof -
  let ?e = "\<lfloor>log 2 x\<rfloor>"
  let ?n = "nat \<lfloor>x\<rfloor>"
  have x: "0 < x" using assms by simp
  have "0 \<le> log 2 x" using assms by simp
  then have e: "0 \<le> ?e" by simp
  have n: "real ?n = of_int \<lfloor>x\<rfloor>" using assms by simp
  have "(2::real) powr of_int ?e = 2 powr real (nat ?e)" using e by simp
  also have "\<dots> = 2 ^ nat ?e" by (rule powr_realpow) simp
  finally have p: "2 powr of_int ?e = real_of_int (2 ^ nat ?e)" by simp
  have "of_int (2 ^ nat ?e) \<le> x" using floor_log2_bounds [OF x] by (simp only: p)
  then have "2 ^ nat ?e \<le> \<lfloor>x\<rfloor>" by (simp only: le_floor_iff)
  then have "real_of_int (2 ^ nat ?e) \<le> of_int \<lfloor>x\<rfloor>" by (simp only: of_int_le_iff)
  then have a: "2 powr of_int ?e \<le> real ?n" by (simp only: p n)
  have "real ?n \<le> x" by (simp add: n)
  then have b: "real ?n < 2 powr of_int (?e + 1)"
    using floor_log2_bounds [OF x] by linarith
  from a b show ?thesis by (rule floor_log2_eq)
qed

lemma takeWhile_upt_length:
  fixes P :: "nat \<Rightarrow> bool" and N :: nat
  defines "k \<equiv> length (takeWhile P [0..<N])"
  shows "k \<le> N \<and> (\<forall>n<k. P n) \<and> (k < N \<longrightarrow> \<not> P k)"
proof (intro conjI allI impI)
  show kn: "k \<le> N"
    using length_takeWhile_le [of P "[0..<N]"] by (simp add: k_def)
  show "P n" if "n < k" for n
  proof -
    have "takeWhile P [0..<N] ! n = [0..<N] ! n"
      using that unfolding k_def by (rule takeWhile_nth)
    moreover have "takeWhile P [0..<N] ! n \<in> set (takeWhile P [0..<N])"
      using that unfolding k_def by (rule nth_mem)
    ultimately have "P ([0..<N] ! n)" using set_takeWhileD by metis
    then show ?thesis using that kn by simp
  qed
  show "\<not> P k" if "k < N"
  proof -
    have "length (takeWhile P [0..<N]) < length [0..<N]" using that by (simp add: k_def)
    then have "\<not> P ([0..<N] ! length (takeWhile P [0..<N]))" by (rule nth_length_takeWhile)
    then show ?thesis using that by (simp add: k_def)
  qed
qed

lemma exponent64_log:
  assumes "x \<noteq> 0"
  shows "exponent64 x = max \<lfloor>log 2 \<bar>x\<bar>\<rfloor> (- 1022)"
proof (cases "1 \<le> \<bar>x\<bar>")
  case True
  let ?n = "nat \<lfloor>\<bar>x\<bar>\<rfloor>"
  have n: "0 < ?n" using True by simp
  have "0 \<le> log 2 \<bar>x\<bar>" using True by simp
  then have e: "0 \<le> \<lfloor>log 2 \<bar>x\<bar>\<rfloor>" by simp
  have "int (floorlog 2 ?n) = \<lfloor>log 2 (real ?n)\<rfloor> + 1"
    using n e floor_log2_floor [OF True] by (simp add: floorlog_def)
  then have "exponent64 x = \<lfloor>log 2 \<bar>x\<bar>\<rfloor>"
    using True floor_log2_floor [OF True] by (simp add: exponent64_def)
  then show ?thesis using e by simp
next
  case False
  define P where "P = (\<lambda>n::nat. \<bar>x\<bar> * 2 ^ n < 1)"
  define k where "k = length (takeWhile P [0..<1022])"
  have ex: "exponent64 x = - int k"
    using False by (simp add: exponent64_def k_def P_def)
  have ax: "0 < \<bar>x\<bar>" using assms by simp
  from takeWhile_upt_length [of P 1022]
  have k: "k \<le> 1022" "\<forall>n<k. P n" "k < 1022 \<longrightarrow> \<not> P k" by (simp_all add: k_def)
  have "P 0" using False by (simp add: P_def)
  then have k0: "0 < k" using k(3) by (cases "k = 0") simp_all
  then have pk: "P (k - 1)" using k(2) by simp
  have pw: "2 powr of_int (- int m) * 2 ^ m = (1::real)" for m
    by (simp add: powr_minus powr_realpow)
  have up: "\<bar>x\<bar> < 2 powr of_int (- int k + 1)"
  proof -
    have "\<bar>x\<bar> * 2 ^ (k - 1) < 2 powr of_int (- int (k - 1)) * 2 ^ (k - 1)"
      using pk by (simp only: pw P_def)
    then have "\<bar>x\<bar> < 2 powr of_int (- int (k - 1))" by simp
    moreover have "- int (k - 1) = - int k + 1" using k0 by simp
    ultimately show ?thesis by simp
  qed
  show ?thesis
  proof (cases "k < 1022")
    case True
    with k(3) have "1 \<le> \<bar>x\<bar> * 2 ^ k" by (simp add: P_def)
    then have "2 powr of_int (- int k) * 2 ^ k \<le> \<bar>x\<bar> * 2 ^ k" by (simp only: pw)
    then have "2 powr of_int (- int k) \<le> \<bar>x\<bar>" by simp
    from this up have "\<lfloor>log 2 \<bar>x\<bar>\<rfloor> = - int k" by (rule floor_log2_eq)
    then show ?thesis using True by (simp add: ex)
  next
    case False
    with k(1) have k2: "k = 1022" by simp
    have "log 2 \<bar>x\<bar> < of_int (- int k + 1)"
      using up ax by (simp add: log_less_iff)
    then have "\<lfloor>log 2 \<bar>x\<bar>\<rfloor> < - int k + 1" by (simp only: floor_less_iff)
    then show ?thesis by (simp add: ex k2)
  qed
qed

lemma ulp64_powr: "ulp64 x = 2 powr of_int (exponent64 x - 52)"
  using powr_real_of_int' [of 2 "exponent64 x - 52"] by (simp only: ulp64_def) simp

lemma exponent64_pos: "0 < x \<Longrightarrow> exponent64 x = max \<lfloor>log 2 x\<rfloor> (- 1022)"
  using exponent64_log [of x] by simp

lemma exponent64_ge: "- 1022 \<le> exponent64 x"
proof (cases "1 \<le> \<bar>x\<bar>")
  case True
  then show ?thesis by (simp add: exponent64_def)
next
  case False
  have "length (takeWhile (\<lambda>n. \<bar>x\<bar> * 2 ^ n < 1) [0..<1022]) \<le> length [0..<1022]"
    by (rule length_takeWhile_le)
  then show ?thesis using False by (simp add: exponent64_def)
qed

lemma round_half_even_of_int: "round_half_even (of_int n) = n"
  by (simp add: round_half_even_def)

lemma round_half_even_bounds:
  "\<lfloor>q\<rfloor> \<le> round_half_even q \<and> round_half_even q \<le> \<lfloor>q\<rfloor> + 1"
  by (simp add: round_half_even_def Let_def)

lemma round_half_even_mono:
  assumes "q \<le> q'"
  shows "round_half_even q \<le> round_half_even q'"
proof (cases "\<lfloor>q\<rfloor> = \<lfloor>q'\<rfloor>")
  case True
  then show ?thesis
    using assms by (auto simp: round_half_even_def Let_def)
next
  case False
  then have "\<lfloor>q\<rfloor> < \<lfloor>q'\<rfloor>"
    using assms floor_mono [of q q'] by linarith
  then show ?thesis
    using round_half_even_bounds [of q] round_half_even_bounds [of q'] by linarith
qed

lemma round_half_even_nonneg: "0 \<le> q \<Longrightarrow> 0 \<le> round_half_even q"
  using round_half_even_mono [of 0 q] round_half_even_of_int [of 0] by simp

lemma ulp64_pos: "0 < ulp64 x"
  by (simp add: ulp64_powr)

lemma exponent64_uminus: "exponent64 (- x) = exponent64 x"
  by (simp add: exponent64_def)

lemma ulp64_uminus: "ulp64 (- x) = ulp64 x"
  by (simp add: ulp64_def exponent64_uminus)

lemma round64_uminus: "round64 (- x) = - round64 x"
  by (simp add: round64_def ulp64_uminus sgn_minus)

lemma round64_0: "round64 0 = 0"
  by (simp add: round64_def)

lemma round64_pos:
  "0 < x \<Longrightarrow> round64 x = of_int (round_half_even (x / ulp64 x)) * ulp64 x"
  by (simp add: round64_def)

lemma round64_nonneg: "0 \<le> x \<Longrightarrow> 0 \<le> round64 x"
proof (cases "x = 0")
  case True
  then show ?thesis by (simp add: round64_0)
next
  case False
  assume "0 \<le> x"
  with False have x: "0 < x" by simp
  have "0 \<le> x / ulp64 x" using x ulp64_pos [of x] by simp
  then have "0 \<le> round_half_even (x / ulp64 x)" by (rule round_half_even_nonneg)
  then show ?thesis using ulp64_pos [of x] by (simp add: round64_pos [OF x])
qed

lemma exponent64_mono:
  assumes "0 < x" "x \<le> y"
  shows "exponent64 x \<le> exponent64 y"
proof -
  have "log 2 x \<le> log 2 y" using assms by simp
  then have "\<lfloor>log 2 x\<rfloor> \<le> \<lfloor>log 2 y\<rfloor>" by (rule floor_mono)
  then show ?thesis using assms by (simp add: exponent64_pos)
qed

lemma ulp64_scale: "2 powr of_int (exponent64 x + k) = 2 powr of_int (k + 52) * ulp64 x"
  by (simp add: ulp64_powr powr_add [symmetric] add.commute)

lemma round64_upper:
  assumes "0 < x"
  shows "round64 x \<le> 2 powr of_int (exponent64 x + 1)"
proof -
  let ?u = "ulp64 x"
  have "x < 2 powr of_int (\<lfloor>log 2 x\<rfloor> + 1)"
    using floor_log2_bounds [OF assms] by simp
  also have "\<dots> \<le> 2 powr of_int (exponent64 x + 1)"
    using assms by (simp add: exponent64_pos)
  also have "\<dots> = 2 powr of_int (1 + 52) * ?u" by (rule ulp64_scale)
  finally have "x / ?u \<le> 2 powr of_int (1 + 52)"
    using ulp64_pos [of x] by (simp add: field_simps)
  then have "x / ?u \<le> of_int (2 ^ 53)" by simp
  then have "round_half_even (x / ?u) \<le> round_half_even (of_int (2 ^ 53))"
    by (rule round_half_even_mono)
  then have "round_half_even (x / ?u) \<le> 2 ^ 53"
    by (simp only: round_half_even_of_int)
  then have "real_of_int (round_half_even (x / ?u)) \<le> 2 powr of_int (1 + 52)"
    by (simp add: of_int_le_iff [symmetric] del: of_int_le_iff)
  then have "real_of_int (round_half_even (x / ?u)) * ?u \<le> 2 powr of_int (1 + 52) * ?u"
    using ulp64_pos [of x] by (simp add: mult_right_mono)
  then show ?thesis
    by (simp only: round64_pos [OF assms] ulp64_scale [of x 1])
qed

lemma round64_lower:
  assumes "0 < x" "- 1022 \<le> \<lfloor>log 2 x\<rfloor>"
  shows "2 powr of_int (exponent64 x) \<le> round64 x"
proof -
  let ?u = "ulp64 x"
  have e: "exponent64 x = \<lfloor>log 2 x\<rfloor>" using assms by (simp add: exponent64_pos)
  have "2 powr of_int (exponent64 x + 0) = 2 powr of_int (0 + 52) * ?u" by (rule ulp64_scale)
  then have s: "2 powr of_int (exponent64 x) = 2 powr 52 * ?u" by simp
  have "2 powr of_int (exponent64 x) \<le> x"
    using floor_log2_bounds [OF assms(1)] by (simp add: e)
  then have "2 powr 52 \<le> x / ?u"
    using ulp64_pos [of x] by (simp add: s field_simps)
  then have "of_int (2 ^ 52) \<le> x / ?u" by simp
  then have "round_half_even (of_int (2 ^ 52)) \<le> round_half_even (x / ?u)"
    by (rule round_half_even_mono)
  then have "2 ^ 52 \<le> round_half_even (x / ?u)"
    by (simp only: round_half_even_of_int)
  then have "2 powr 52 \<le> real_of_int (round_half_even (x / ?u))"
    by (simp add: of_int_le_iff [symmetric] del: of_int_le_iff)
  then have "2 powr 52 * ?u \<le> real_of_int (round_half_even (x / ?u)) * ?u"
    using ulp64_pos [of x] by (simp add: mult_right_mono)
  then show ?thesis
    by (simp only: round64_pos [OF assms(1)] s)
qed

lemma round64_mono_pos:
  assumes x: "0 < x" and xy: "x \<le> y"
  shows "round64 x \<le> round64 y"
proof -
  have y: "0 < y" using x xy by simp
  have le: "exponent64 x \<le> exponent64 y" using x xy by (rule exponent64_mono)
  show ?thesis
  proof (cases "exponent64 x = exponent64 y")
    case True
    then have u: "ulp64 x = ulp64 y" by (simp add: ulp64_powr)
    have "x / ulp64 y \<le> y / ulp64 y"
      using xy ulp64_pos [of y] by (simp add: divide_right_mono)
    then have "round_half_even (x / ulp64 y) \<le> round_half_even (y / ulp64 y)"
      by (rule round_half_even_mono)
    then have "real_of_int (round_half_even (x / ulp64 y)) * ulp64 y \<le>
               real_of_int (round_half_even (y / ulp64 y)) * ulp64 y"
      using ulp64_pos [of y] by (simp add: mult_right_mono)
    then show ?thesis by (simp add: round64_pos [OF x] round64_pos [OF y] u)
  next
    case False
    with le have lt: "exponent64 x + 1 \<le> exponent64 y" by simp
    then have "- 1022 < exponent64 y" using exponent64_ge [of x] by linarith
    then have "- 1022 \<le> \<lfloor>log 2 y\<rfloor>"
      using exponent64_pos [OF y] by linarith
    from round64_lower [OF y this] have "2 powr of_int (exponent64 y) \<le> round64 y" .
    moreover have "(2::real) powr of_int (exponent64 x + 1) \<le> 2 powr of_int (exponent64 y)"
    proof -
      have "real_of_int (exponent64 x + 1) \<le> real_of_int (exponent64 y)"
        using lt by (simp only: of_int_le_iff)
      then show ?thesis by simp
    qed
    moreover note round64_upper [OF x]
    ultimately show ?thesis by linarith
  qed
qed

lemma round64_mono:
  assumes "x \<le> y"
  shows "round64 x \<le> round64 y"
proof -
  consider "0 < x" | "x \<le> 0" "0 \<le> y" | "y < 0" by linarith
  then show ?thesis
  proof cases
    case 1
    then show ?thesis using assms by (rule round64_mono_pos)
  next
    case 2
    have "round64 x \<le> 0"
      using round64_nonneg [of "- x"] 2(1) by (simp add: round64_uminus)
    moreover have "0 \<le> round64 y" using 2(2) by (rule round64_nonneg)
    ultimately show ?thesis by simp
  next
    case 3
    then have "0 < - y" "- y \<le> - x" using assms by simp_all
    then have "round64 (- y) \<le> round64 (- x)" by (rule round64_mono_pos)
    then show ?thesis by (simp add: round64_uminus)
  qed
qed


lemma round64_eval:
  assumes "2 powr of_int e \<le> x" "x < 2 powr of_int (e + 1)" "- 1022 \<le> e"
  shows "round64 x =
           of_int (round_half_even (x / 2 powr of_int (e - 52))) * 2 powr of_int (e - 52)"
proof -
  have x: "0 < x" using assms(1) powr_gt_zero [of 2 "of_int e"] by linarith
  have "\<lfloor>log 2 x\<rfloor> = e" using assms(1,2) by (rule floor_log2_eq)
  then have "exponent64 x = e" using x assms(3) by (simp add: exponent64_pos)
  then show ?thesis by (simp add: round64_pos [OF x] ulp64_powr)
qed

lemma round64_integral:
  assumes "\<bar>x\<bar> / ulp64 x = of_int n"
  shows "round64 x = x"
proof (cases "x = 0")
  case True
  then show ?thesis by (simp add: round64_0)
next
  case False
  have "of_int n * ulp64 x = \<bar>x\<bar>"
    using assms ulp64_pos [of x] by (simp add: field_simps)
  then have "sgn x * of_int n * ulp64 x = sgn x * \<bar>x\<bar>" by (simp add: mult.assoc)
  then show ?thesis
    using False by (simp add: round64_def assms round_half_even_of_int sgn_mult_abs)
qed

lemma round64_idem_pos:
  assumes x: "0 < x"
  shows "round64 (round64 x) = round64 x"
proof (cases "round64 x = 0")
  case True
  then show ?thesis by (simp add: round64_0)
next
  case False
  let ?a = "round64 x"
  let ?e = "exponent64 x"
  let ?n = "round_half_even (x / ulp64 x)"
  have a: "0 < ?a" using False round64_nonneg [of x] x by simp
  have an: "?a = of_int ?n * 2 powr of_int (?e - 52)"
    by (simp add: round64_pos [OF x] ulp64_powr)
  have e: "- 1022 \<le> ?e" by (rule exponent64_ge)
  have up: "?a \<le> 2 powr of_int (?e + 1)" using x by (rule round64_upper)
  show ?thesis
  proof (cases "?a = 2 powr of_int (?e + 1)")
    case True
    have "\<lfloor>log 2 ?a\<rfloor> = ?e + 1"
      unfolding True by (simp del: of_int_add)
    then have "exponent64 ?a = ?e + 1" using a e by (simp add: exponent64_pos)
    then have "\<bar>?a\<bar> / ulp64 ?a = 2 powr of_int (?e + 1) / 2 powr of_int (?e + 1 - 52)"
      using a True by (simp add: ulp64_powr)
    also have "\<dots> = 2 powr 52"
      by (simp add: powr_diff [symmetric])
    also have "\<dots> = of_int (2 ^ 52)" by simp
    finally show ?thesis by (rule round64_integral)
  next
    case False
    with up have "?a < 2 powr of_int (?e + 1)" by simp
    then have "log 2 ?a < of_int (?e + 1)" using a by (simp add: log_less_iff)
    then have "\<lfloor>log 2 ?a\<rfloor> \<le> ?e" by linarith
    then have le: "exponent64 ?a \<le> ?e" using a e by (simp add: exponent64_pos)
    define k where "k = nat (?e - exponent64 ?a)"
    have k: "of_int (?e - 52) - of_int (exponent64 ?a - 52) = real k"
      using le by (simp add: k_def)
    have "\<bar>?a\<bar> / ulp64 ?a =
          of_int ?n * (2 powr of_int (?e - 52) / 2 powr of_int (exponent64 ?a - 52))"
      using a an by (simp add: ulp64_powr)
    also have "2 powr of_int (?e - 52) / 2 powr of_int (exponent64 ?a - 52) = 2 powr real k"
      by (simp only: powr_diff [symmetric] k)
    also have "\<dots> = 2 ^ k" by (simp add: powr_realpow)
    also have "of_int ?n * 2 ^ k = of_int (?n * 2 ^ k)" by simp
    finally show ?thesis by (rule round64_integral)
  qed
qed

lemma round64_idem: "round64 (round64 x) = round64 x"
proof -
  consider "0 < x" | "x = 0" | "x < 0" by linarith
  then show ?thesis
  proof cases
    case 1
    then show ?thesis by (rule round64_idem_pos)
  next
    case 2
    then show ?thesis by (simp add: round64_0)
  next
    case 3
    then have "round64 (round64 (- x)) = round64 (- x)" by (intro round64_idem_pos) simp
    then show ?thesis by (simp add: round64_uminus)
  qed
qed

lemma round64_exact:
  assumes n: "0 \<le> n" "n \<le> 2 ^ 53" and e: "- 1022 \<le> e"
  shows "round64 (of_int n * 2 powr of_int (e - 52)) = of_int n * 2 powr of_int (e - 52)"
proof (cases "n = 0")
  case True
  then show ?thesis by (simp add: round64_0)
next
  case False
  let ?a = "real_of_int n * 2 powr real_of_int (e - 52)"
  have a: "0 < ?a" using n False by simp
  have "real_of_int n \<le> 2 powr 53"
    using n(2) by (simp add: of_int_le_iff [symmetric] del: of_int_le_iff)
  then have "?a \<le> 2 powr 53 * 2 powr of_int (e - 52)"
    by (simp add: mult_right_mono)
  also have "\<dots> = 2 powr (53 + real_of_int (e - 52))"
    by (simp only: powr_add)
  also have "53 + real_of_int (e - 52) = real_of_int (e + 1)" by simp
  finally have up: "?a \<le> 2 powr of_int (e + 1)" .
  show ?thesis
  proof (cases "?a = 2 powr of_int (e + 1)")
    case True
    have "\<lfloor>log 2 ?a\<rfloor> = e + 1"
      unfolding True by (simp del: of_int_add)
    then have "exponent64 ?a = e + 1" using a e by (simp add: exponent64_pos)
    then have "\<bar>?a\<bar> / ulp64 ?a = 2 powr of_int (e + 1) / 2 powr of_int (e + 1 - 52)"
      using a True by (simp add: ulp64_powr)
    also have "\<dots> = 2 powr 52"
      by (simp add: powr_diff [symmetric])
    also have "\<dots> = of_int (2 ^ 52)" by simp
    finally show ?thesis by (rule round64_integral)
  next
    case False
    with up have "?a < 2 powr of_int (e + 1)" by simp
    then have "log 2 ?a < of_int (e + 1)" using a by (simp add: log_less_iff)
    then have "\<lfloor>log 2 ?a\<rfloor> \<le> e" by linarith
    then have le: "exponent64 ?a \<le> e" using a e by (simp add: exponent64_pos)
    define k where "k = nat (e - exponent64 ?a)"
    have k: "of_int (e - 52) - of_int (exponent64 ?a - 52) = real k"
      using le by (simp add: k_def)
    have "\<bar>?a\<bar> / ulp64 ?a =
          of_int n * (2 powr of_int (e - 52) / 2 powr of_int (exponent64 ?a - 52))"
      using a by (simp add: ulp64_powr)
    also have "2 powr of_int (e - 52) / 2 powr of_int (exponent64 ?a - 52) = 2 powr real k"
      by (simp only: powr_diff [symmetric] k)
    also have "\<dots> = 2 ^ k" by (simp add: powr_realpow)
    also have "of_int n * 2 ^ k = of_int (n * 2 ^ k)" by simp
    finally show ?thesis by (rule round64_integral)
  qed
qed

section \<open>Normalizer\<close>

lemma concat_map_rows:
  "concat (map (\<lambda>i. map (\<lambda>j. g (i * n + j)) [0..<n]) [0..<m]) = map g [0..<m * n]"
proof (induction m)
  case 0
  then show ?case by simp
next
  case (Suc m)
  have "[0..<Suc m * n] = [0..<m * n] @ [m * n..<m * n + n]"
    using upt_add_eq_append [of 0 "m * n" n] by (simp add: add.commute)
  also have "[m * n..<m * n + n] = map (\<lambda>j. m * n + j) [0..<n]"
    by (rule upt_shift)
  finally show ?case using Suc by (simp add: comp_def)
qed

lemma plane_column:
  assumes "shape a = [n1, n2, n3]"
  shows "plane a k = column (n1 * n2) n3 (data a) k"
  using concat_map_rows [of "\<lambda>r. data a ! (r * n3 + k)" n2 n1] assms
  by (simp add: plane_def column_def item_def flat_index3)

lemma scale64_nonneg:
  "0 \<le> round64 (1 / (if r < 10 * eps64 then 1 else r))"
proof -
  have "0 < eps64" by (simp add: eps64_def)
  then have "0 \<le> 1 / (if r < 10 * eps64 then 1 else r)" by simp
  then show ?thesis by (rule round64_nonneg)
qed

lemma scaled64_mono:
  assumes "x \<le> y"
  shows "scaled64 lo hi x \<le> scaled64 lo hi y"
proof -
  let ?s = "round64 (1 / (if round64 (hi - lo) < 10 * eps64 then 1 else round64 (hi - lo)))"
  have "x * ?s \<le> y * ?s" using assms scale64_nonneg by (rule mult_right_mono)
  then have "round64 (x * ?s) \<le> round64 (y * ?s)" by (rule round64_mono)
  then have "round64 (x * ?s) - round64 (lo * ?s) \<le> round64 (y * ?s) - round64 (lo * ?s)"
    by simp
  then show ?thesis unfolding scaled64_def Let_def by (rule round64_mono)
qed

lemma scaled64_min: "scaled64 lo hi lo = 0"
  by (simp add: scaled64_def Let_def round64_0)

lemma scaled64_nonneg: "lo \<le> x \<Longrightarrow> 0 \<le> scaled64 lo hi x"
  using scaled64_mono [of lo x lo hi] by (simp add: scaled64_min)

lemma transform_scaled64:
  "round64 (round64 (x * scale_attr rows cols xs k) + min_attr rows cols xs k) =
   scaled64 (data_min rows cols xs k) (data_max rows cols xs k) x"
  by (simp add: scaled64_def Let_def min_attr_def scale_attr_def handle_zeros_in_scale_def
      data_range_def round64_uminus round64_idem)

lemma preprocess_nifti_value:
  assumes sh: "shape volume = [n1, n2, n3]" and pos: "0 < n1" "0 < n2" "0 < n3"
    and fs: "fs file_path = Inr volume"
  shows "snd (preprocess_nifti fs file_path) =
           Inr (volume\<lparr>data := fit_transform (n1 * n2) n3 (data volume)\<rparr>)"
proof -
  have "prod_list (shape volume) div n3 = n1 * n2" using pos by (simp add: sh)
  moreover have "0 < n1 * n2" using pos by simp
  ultimately show ?thesis
    using fs pos
    by (simp add: preprocess_nifti_def snd_io_bind io_emit_def io_lift_def io_return_def
        Let_def sh del: prod_list.Cons)
qed

text \<open>
  C3 (as amended). For a volume of shape (n1, n2, n3) with positive extents and magnitudes
  below 2^970, \<open>preprocess_nifti\<close> returns a volume of the same shape in which every
  index k of the last axis is rescaled by its own minimum and maximum over the other two
  axes: entry (i, j, k) is the scaler's float64 value \<open>scaled64\<close> of the input's entry for the
  minimum and maximum of index k. Every output is at least 0 and at most the value given to
  the maximum of its index, the minimum of an index is given 0, and within an index the
  outputs are ordered as the inputs are.
\<close>

theorem preprocess_nifti_min_max:
  assumes wfi: "wf volume" and sh: "shape volume = [n1, n2, n3]"
    and pos: "0 < n1" "0 < n2" "0 < n3"
    and mag: "\<forall>v \<in> set (data volume). \<bar>v\<bar> < 2 ^ 970"
    and fs: "fs file_path = Inr volume"
  shows "\<exists>out. snd (preprocess_nifti fs file_path) = Inr out \<and>
           shape out = shape volume \<and> wf out \<and>
           (\<forall>i<n1. \<forall>j<n2. \<forall>k<n3.
              item out [i, j, k] =
                scaled64 (range_min volume k) (range_max volume k) (item volume [i, j, k]) \<and>
              0 \<le> item out [i, j, k] \<and>
              item out [i, j, k] \<le>
                scaled64 (range_min volume k) (range_max volume k) (range_max volume k) \<and>
              (item volume [i, j, k] = range_min volume k \<longrightarrow> item out [i, j, k] = 0) \<and>
              (\<forall>i'<n1. \<forall>j'<n2. item volume [i, j, k] \<le> item volume [i', j', k] \<longrightarrow>
                 item out [i, j, k] \<le> item out [i', j', k]))"
proof -
  let ?rows = "n1 * n2"
  let ?xs = "data volume"
  define out where "out = volume\<lparr>data := fit_transform ?rows n3 ?xs\<rparr>"
  have run: "snd (preprocess_nifti fs file_path) = Inr out"
    unfolding out_def using sh pos fs by (rule preprocess_nifti_value)
  define f where "f = (\<lambda>r. map (\<lambda>k. round64 (round64 (?xs ! (r * n3 + k) *
      scale_attr ?rows n3 ?xs k) + min_attr ?rows n3 ?xs k)) [0..<n3])"
  have dat: "data out = concat (map f [0..<?rows])"
    by (simp add: out_def fit_transform_def f_def)
  have lenf: "length (f r) = n3" for r by (simp add: f_def)
  have wfo: "wf out"
    using length_concat_map_upt [of ?rows f n3] lenf
    by (simp add: wf_def dat) (simp add: out_def sh)
  have lo: "data_min ?rows n3 ?xs k = range_min volume k" for k
    by (simp add: data_min_def range_min_def plane_column [OF sh])
  have hi: "data_max ?rows n3 ?xs k = range_max volume k" for k
    by (simp add: data_max_def range_max_def plane_column [OF sh])
  have val: "item out [i, j, k] =
      scaled64 (range_min volume k) (range_max volume k) (item volume [i, j, k])"
    if i: "i < n1" and j: "j < n2" and k: "k < n3" for i j k
  proof -
    let ?r = "i * n2 + j"
    have r: "?r < ?rows" using i j by (rule flat_bound)
    have v: "item volume [i, j, k] = ?xs ! (?r * n3 + k)"
      by (simp add: item_def sh flat_index3)
    have "item out [i, j, k] = f ?r ! k"
      using nth_concat_map_upt [of ?rows f n3 ?r k] lenf r k
      by (simp add: item_def dat flat_index3) (simp add: out_def sh flat_index3)
    also have "\<dots> = round64 (round64 (item volume [i, j, k] * scale_attr ?rows n3 ?xs k) +
        min_attr ?rows n3 ?xs k)"
      using k by (simp add: f_def v)
    finally show ?thesis by (simp only: transform_scaled64 lo hi)
  qed
  have mem: "item volume [i, j, k] \<in> set (plane volume k)"
    if i: "i < n1" and j: "j < n2" for i j k
  proof -
    have "i * n2 + j < ?rows" using i j by (rule flat_bound)
    then have "?xs ! ((i * n2 + j) * n3 + k) \<in> set (column ?rows n3 ?xs k)"
      by (auto simp: column_def)
    then show ?thesis by (simp add: plane_column [OF sh] item_def sh flat_index3)
  qed
  have all: "item out [i, j, k] =
                scaled64 (range_min volume k) (range_max volume k) (item volume [i, j, k]) \<and>
              0 \<le> item out [i, j, k] \<and>
              item out [i, j, k] \<le>
                scaled64 (range_min volume k) (range_max volume k) (range_max volume k) \<and>
              (item volume [i, j, k] = range_min volume k \<longrightarrow> item out [i, j, k] = 0) \<and>
              (\<forall>i'<n1. \<forall>j'<n2. item volume [i, j, k] \<le> item volume [i', j', k] \<longrightarrow>
                 item out [i, j, k] \<le> item out [i', j', k])"
    if i: "i < n1" and j: "j < n2" and k: "k < n3" for i j k
  proof -
    have ge: "range_min volume k \<le> item volume [i, j, k]"
      unfolding range_min_def using mem [OF i j] by (intro Min_le) simp_all
    have le: "item volume [i, j, k] \<le> range_max volume k"
      unfolding range_max_def using mem [OF i j] by (intro Max_ge) simp_all
    show ?thesis
      using val [OF i j k] val [OF _ _ k] scaled64_nonneg [OF ge] scaled64_mono [OF le]
        scaled64_min scaled64_mono
      by auto
  qed
  have "shape out = shape volume" by (simp add: out_def)
  with run wfo all show ?thesis by blast
qed

section \<open>The scaler on numbers\<close>

lemma round64_grid:
  assumes "0 \<le> n" "n \<le> 2 ^ 53" "k \<le> 1074"
  shows "round64 (of_int n / 2 ^ k) = of_int n / 2 ^ k"
proof -
  have "- 1022 \<le> 52 - int k" using assms(3) by simp
  from round64_exact [OF assms(1,2) this]
  show ?thesis by (simp add: powr_minus powr_realpow divide_inverse)
qed

lemma round64_304: "round64 (1 / 304) = 7585009898729256 / 2 ^ 61"
proof -
  have "round64 (1 / 304) =
        of_int (round_half_even ((1 / 304) / 2 powr of_int (- 9 - 52))) * 2 powr of_int (- 9 - 52)"
    by (rule round64_eval) (simp_all add: powr_minus)
  also have "(1 / 304) / 2 powr of_int (- 9 - 52) = (2 ^ 61 / 304 :: real)"
    by (simp add: powr_minus)
  also have "round_half_even (2 ^ 61 / 304) = 7585009898729256"
    by (simp add: round_half_even_def Let_def)
  finally show ?thesis by (simp add: powr_minus)
qed

lemma round64_680: "round64 (680 * (7585009898729256 / 2 ^ 61)) = 5036920635874897 / 2 ^ 51"
proof -
  let ?x = "680 * (7585009898729256 / 2 ^ 61) :: real"
  have "round64 ?x =
        of_int (round_half_even (?x / 2 powr of_int (1 - 52))) * 2 powr of_int (1 - 52)"
    by (rule round64_eval) (simp_all add: powr_minus)
  also have "?x / 2 powr of_int (1 - 52) = (5157806731135894080 / 1024 :: real)"
    by (simp add: powr_minus)
  also have "round_half_even (5157806731135894080 / 1024) = 5036920635874897"
    by (simp add: round_half_even_def Let_def)
  finally show ?thesis by (simp add: powr_minus)
qed

lemma round64_376: "round64 (376 * (7585009898729256 / 2 ^ 61)) = 5570241644379297 / 2 ^ 52"
proof -
  let ?x = "376 * (7585009898729256 / 2 ^ 61) :: real"
  have "round64 ?x =
        of_int (round_half_even (?x / 2 powr of_int (0 - 52))) * 2 powr of_int (0 - 52)"
    by (rule round64_eval) (simp_all add: powr_minus)
  also have "?x / 2 powr of_int (0 - 52) = (2851963721922200256 / 512 :: real)"
    by (simp add: powr_minus)
  also have "round_half_even (2851963721922200256 / 512) = 5570241644379297"
    by (simp add: round_half_even_def Let_def)
  finally show ?thesis by (simp add: powr_minus)
qed

lemma round64_408: "round64 (408 * (7585009898729256 / 2 ^ 61)) = 6044304763049876 / 2 ^ 52"
proof -
  let ?x = "408 * (7585009898729256 / 2 ^ 61) :: real"
  have "round64 ?x =
        of_int (round_half_even (?x / 2 powr of_int (0 - 52))) * 2 powr of_int (0 - 52)"
    by (rule round64_eval) (simp_all add: powr_minus)
  also have "?x / 2 powr of_int (0 - 52) = (3094684038681536448 / 512 :: real)"
    by (simp add: powr_minus)
  also have "round_half_even (3094684038681536448 / 512) = 6044304763049876"
    by (simp add: round_half_even_def Let_def)
  finally show ?thesis by (simp add: powr_minus)
qed

lemma scaled64_integer:
  "scaled64 376 680 680 = 1 + 1 / 2 ^ 52"
  "scaled64 376 680 376 = 0"
  "scaled64 376 680 408 = 474063118670579 / 2 ^ 52"
proof -
  have r: "round64 (680 - 376) = 304"
    using round64_grid [of 304 0] by simp
  have a: "round64 (4503599627370497 / 2 ^ 52) = 4503599627370497 / 2 ^ 52"
    using round64_grid [of 4503599627370497 52] by simp
  have b: "round64 (474063118670579 / 2 ^ 52) = 474063118670579 / 2 ^ 52"
    using round64_grid [of 474063118670579 52] by simp
  have d1: "5036920635874897 / 2 ^ 51 - 5570241644379297 / 2 ^ 52 =
            (4503599627370497 / 2 ^ 52 :: real)" by simp
  have d2: "6044304763049876 / 2 ^ 52 - 5570241644379297 / 2 ^ 52 =
            (474063118670579 / 2 ^ 52 :: real)" by simp
  have t: "\<not> (304 :: real) < 10 * eps64" by (simp add: eps64_def)
  show "scaled64 376 680 680 = 1 + 1 / 2 ^ 52"
    unfolding scaled64_def Let_def r if_not_P [OF t] round64_304 round64_680 round64_376 d1 a
    by simp
  show "scaled64 376 680 376 = 0"
    by (rule scaled64_min)
  show "scaled64 376 680 408 = 474063118670579 / 2 ^ 52"
    unfolding scaled64_def Let_def r if_not_P [OF t] round64_304 round64_408 round64_376 d2 b
    by simp
qed

lemma scaled64_narrow:
  "scaled64 1 (1 + 1 / 2 ^ 50) 1 = 0"
  "scaled64 1 (1 + 1 / 2 ^ 50) (1 + 1 / 2 ^ 50) = 1 / 2 ^ 50"
proof -
  have r: "round64 (1 + 1 / 2 ^ 50 - 1) = 1 / 2 ^ 50"
    using round64_grid [of 1 50] by simp
  have t: "(1 / 2 ^ 50 :: real) < 10 * eps64" by (simp add: eps64_def)
  have o: "round64 (1 / 1) = 1" using round64_grid [of 1 0] by simp
  have x: "round64 ((1 + 1 / 2 ^ 50) * 1) = 1 + 1 / 2 ^ 50"
    using round64_grid [of "2 ^ 50 + 1" 50] by (simp add: field_simps)
  have o1: "round64 (1 * 1) = 1" using round64_grid [of 1 0] by simp
  show "scaled64 1 (1 + 1 / 2 ^ 50) 1 = 0" by (rule scaled64_min)
  show "scaled64 1 (1 + 1 / 2 ^ 50) (1 + 1 / 2 ^ 50) = 1 / 2 ^ 50"
    unfolding scaled64_def Let_def r if_P [OF t] o x o1
    using round64_grid [of 1 50] by simp
qed


lemma fit_transform_scaled64:
  "fit_transform rows cols xs =
     concat (map (\<lambda>r. map (\<lambda>k. scaled64 (data_min rows cols xs k) (data_max rows cols xs k)
                                   (xs ! (r * cols + k))) [0..<cols]) [0..<rows])"
  by (simp add: fit_transform_def transform_scaled64)

lemma upt_2: "[0..<2] = [0, 1]"
  by (simp add: upt_rec numeral_eq_Suc)

lemma upt_3: "[0..<3] = [0, 1, 2]"
  by (simp add: upt_rec numeral_eq_Suc)

lemma plane_narrow: "plane narrow_volume 0 = [1, 1 + 1 / 2 ^ 50]"
  by (simp add: plane_def narrow_volume_def item_def flat_index_def upt_2)

lemma plane_integer: "plane integer_volume 0 = [680, 376, 408]"
  by (simp add: plane_def integer_volume_def item_def flat_index_def upt_3)

lemma scaled64_small: "scaled64 5 9 9 = 1"
proof -
  have r: "round64 (9 - 5) = 4" using round64_grid [of 4 0] by simp
  have t: "\<not> (4 :: real) < 10 * eps64" by (simp add: eps64_def)
  have s: "round64 (1 / 4) = 1 / 4" using round64_grid [of 1 2] by simp
  have a: "round64 (9 * (1 / 4)) = 9 / 4" using round64_grid [of 9 2] by simp
  have b: "round64 (5 * (1 / 4)) = 5 / 4" using round64_grid [of 5 2] by simp
  have c: "round64 (9 / 4 - 5 / 4) = 1" using round64_grid [of 1 0] by simp
  show ?thesis
    unfolding scaled64_def Let_def r if_not_P [OF t] s a b c ..
qed

theorem preprocess_nifti_min_max_witness:
  "wf small_volume \<and> shape small_volume = [2, 1, 2] \<and>
   range_min small_volume 1 = 5 \<and> range_max small_volume 1 = 9 \<and>
   scaled64 5 9 9 = 1 \<and>
   (\<exists>out. snd (preprocess_nifti small_fs ''t1n.nii.gz'') = Inr out \<and>
      shape out = [2, 1, 2] \<and> wf out \<and>
      item out [1, 0, 1] = scaled64 5 9 9 \<and>
      item out [0, 0, 1] = 0 \<and>
      0 \<le> item out [1, 0, 1] \<and>
      item out [0, 0, 1] \<le> item out [1, 0, 1])"
proof -
  have w: "wf small_volume" by (simp add: wf_def small_volume_def)
  have s: "shape small_volume = [2, 1, 2]" by (simp add: small_volume_def)
  have m: "\<forall>v \<in> set (data small_volume). \<bar>v\<bar> < 2 ^ 970"
    by (simp add: small_volume_def)
  have p: "plane small_volume 1 = [5, 9]"
    by (simp add: plane_def small_volume_def item_def flat_index_def upt_2)
  have r: "range_min small_volume 1 = 5" "range_max small_volume 1 = 9"
    using p by (simp_all add: range_min_def range_max_def)
  have i: "item small_volume [1, 0, 1] = 9" "item small_volume [0, 0, 1] = 5"
    by (simp_all add: small_volume_def item_def flat_index_def)
  from preprocess_nifti_min_max [OF w s _ _ _ m, of small_fs "''t1n.nii.gz''"]
  obtain out where o: "snd (preprocess_nifti small_fs ''t1n.nii.gz'') = Inr out"
    "shape out = shape small_volume" "wf out"
    and v: "\<forall>i<2. \<forall>j<1. \<forall>k<2.
        item out [i, j, k] =
          scaled64 (range_min small_volume k) (range_max small_volume k)
            (item small_volume [i, j, k]) \<and>
        0 \<le> item out [i, j, k] \<and>
        item out [i, j, k] \<le>
          scaled64 (range_min small_volume k) (range_max small_volume k)
            (range_max small_volume k) \<and>
        (item small_volume [i, j, k] = range_min small_volume k \<longrightarrow> item out [i, j, k] = 0) \<and>
        (\<forall>i'<2. \<forall>j'<1. item small_volume [i, j, k] \<le> item small_volume [i', j', k] \<longrightarrow>
           item out [i, j, k] \<le> item out [i', j', k])"
    by (auto simp: small_fs_def)
  from v [rule_format, of 1 0 1] r i
  have a: "item out [1, 0, 1] = scaled64 5 9 9" "0 \<le> item out [1, 0, 1]" by simp_all
  from v [rule_format, of 0 0 1] r i
  have b: "item out [0, 0, 1] = 0" by simp
  from a b scaled64_small have c: "item out [0, 0, 1] \<le> item out [1, 0, 1]" by simp
  from w s r scaled64_small o a b c show ?thesis by auto
qed

text \<open>
  C3 as stated fails. The values 1 and 1 + 2^-50 have minimum below maximum, but their
  range is under ten machine epsilons, the scaler takes it for zero, and the maximum is
  given 2^-50 where the claim's formula gives 1. The values 680, 376 and 408 have a range
  the scaler divides by, and rounding gives the maximum 1 + 2^-52, above 1.
\<close>

theorem preprocess_nifti_min_max_counterexample:
  "non_degenerate narrow_volume 0 \<and>
   snd (preprocess_nifti narrow_fs ''t1n.nii.gz'') =
     Inr \<lparr>shape = [2, 1, 1], data = [0, 1 / 2 ^ 50]\<rparr> \<and>
   (item narrow_volume [1, 0, 0] - range_min narrow_volume 0) /
     (range_max narrow_volume 0 - range_min narrow_volume 0) = 1 \<and>
   non_degenerate integer_volume 0 \<and>
   snd (preprocess_nifti integer_fs ''t1n.nii.gz'') =
     Inr \<lparr>shape = [3, 1, 1], data = [1 + 1 / 2 ^ 52, 0, 474063118670579 / 2 ^ 52]\<rparr>"
proof -
  have n1: "range_min narrow_volume 0 = 1" "range_max narrow_volume 0 = 1 + 1 / 2 ^ 50"
    by (simp_all add: range_min_def range_max_def plane_narrow)
  have n2: "non_degenerate narrow_volume 0"
    by (simp add: non_degenerate_def plane_narrow n1)
  have n3: "item narrow_volume [1, 0, 0] = 1 + 1 / 2 ^ 50"
    by (simp add: narrow_volume_def item_def flat_index_def)
  define h :: real where "h = 1 + 1 / 2 ^ 50"
  have h1: "1 \<le> h" by (simp add: h_def)
  have n4: "data_min 2 1 [1, h] 0 = 1" "data_max 2 1 [1, h] 0 = h"
    using h1 by (simp_all add: data_min_def data_max_def column_def upt_2)
  have "fit_transform 2 1 [1, h] = [scaled64 1 h 1, scaled64 1 h h]"
    using n4 by (simp add: fit_transform_scaled64 upt_2)
  also have "\<dots> = [0, 1 / 2 ^ 50]"
    unfolding h_def by (simp only: scaled64_narrow)
  finally have n5: "fit_transform 2 1 [1, h] = [0, 1 / 2 ^ 50]" .
  have "snd (preprocess_nifti narrow_fs ''t1n.nii.gz'') =
      Inr (narrow_volume\<lparr>data := fit_transform (2 * 1) 1 (data narrow_volume)\<rparr>)"
    by (rule preprocess_nifti_value) (simp_all add: narrow_volume_def narrow_fs_def)
  also have "data narrow_volume = [1, h]" by (simp add: narrow_volume_def h_def)
  finally have n6: "snd (preprocess_nifti narrow_fs ''t1n.nii.gz'') =
      Inr \<lparr>shape = [2, 1, 1], data = [0, 1 / 2 ^ 50]\<rparr>"
    using n5 by (simp add: narrow_volume_def)
  have i1: "range_min integer_volume 0 = 376" "range_max integer_volume 0 = 680"
    by (simp_all add: range_min_def range_max_def plane_integer)
  have i2: "non_degenerate integer_volume 0"
    by (simp add: non_degenerate_def plane_integer i1)
  have i4: "data_min 3 1 [680, 376, 408] 0 = 376" "data_max 3 1 [680, 376, 408] 0 = 680"
    by (simp_all add: data_min_def data_max_def column_def upt_3)
  have i5: "fit_transform 3 1 [680, 376, 408] =
      [1 + 1 / 2 ^ 52, 0, 474063118670579 / 2 ^ 52]"
    using i4 scaled64_integer by (simp add: fit_transform_scaled64 upt_3)
  have i6: "snd (preprocess_nifti integer_fs ''t1n.nii.gz'') =
      Inr \<lparr>shape = [3, 1, 1], data = [1 + 1 / 2 ^ 52, 0, 474063118670579 / 2 ^ 52]\<rparr>"
    using preprocess_nifti_value [of integer_volume 3 1 1 integer_fs "''t1n.nii.gz''"] i5
    by (simp add: integer_volume_def integer_fs_def)
  from n1 n2 n3 n6 i2 i6 show ?thesis by simp
qed

section \<open>Inference Orchestrator: the shape check\<close>

lemma np_argmax4_shape:
  "np_argmax 4 p = Inr am \<Longrightarrow>
     5 \<le> ndim p \<and> shape p ! 4 \<noteq> 0 \<and> shape am = take 4 (shape p) @ drop 5 (shape p)"
  by (auto simp: np_argmax_def Let_def split: if_splits)

lemma np_argmax4_ok:
  "5 \<le> ndim p \<Longrightarrow> shape p ! 4 \<noteq> 0 \<Longrightarrow> \<exists>am. np_argmax 4 p = Inr am"
  by (simp add: np_argmax_def Let_def)

lemma index0_after_argmax:
  assumes "5 \<le> ndim p" "shape am = take 4 (shape p) @ drop 5 (shape p)"
  shows "(\<exists>r. index0 am = Inr r) \<longleftrightarrow> hd (shape p) \<noteq> 0"
proof -
  have n: "\<not> ndim am < 4" using assms by (simp add: ndim_def)
  have "shape p \<noteq> []" using assms(1) by (auto simp: ndim_def)
  then have "hd (shape am) = hd (shape p)"
    using assms by (cases "shape p") (simp_all add: ndim_def)
  then show ?thesis using n by (simp add: index0_def)
qed

lemma run_segmentation_result_iff:
  assumes "ndim (expand_dims0 input_image) = 5"
  shows "(\<exists>labels. snd (run_segmentation predict input_image) = Inr (Some labels)) \<longleftrightarrow>
         (\<exists>p. predict (expand_dims0 input_image) = Inr p \<and> 5 \<le> ndim p \<and>
              hd (shape p) \<noteq> 0 \<and> shape p ! 4 \<noteq> 0)"
proof -
  have run: "snd (run_segmentation predict input_image) =
      (case predict (expand_dims0 input_image) of
         Inl e \<Rightarrow> Inl e
       | Inr p \<Rightarrow> (case np_argmax 4 p of
            Inl e \<Rightarrow> Inl e
          | Inr am \<Rightarrow> (case index0 am of Inl e \<Rightarrow> Inl e | Inr r \<Rightarrow> Inr (Some r))))"
    using assms
    by (simp add: run_segmentation_def ndim_def Let_def snd_io_bind io_emit_def io_lift_def
        io_return_def split: sum.splits)
  show ?thesis
  proof (cases "predict (expand_dims0 input_image)")
    case (Inl e)
    then show ?thesis by (simp add: run)
  next
    case (Inr p)
    show ?thesis
    proof (cases "np_argmax 4 p")
      case (Inl e)
      with np_argmax4_ok [of p] have "\<not> (5 \<le> ndim p \<and> shape p ! 4 \<noteq> 0)" by auto
      with Inl Inr show ?thesis by (auto simp: run)
    next
      case am: (Inr am)
      from np_argmax4_shape [OF am] have s: "5 \<le> ndim p" "shape p ! 4 \<noteq> 0"
        "shape am = take 4 (shape p) @ drop 5 (shape p)" by simp_all
      from index0_after_argmax [OF s(1,3)] Inr am s(1,2) show ?thesis
        by (auto simp: run split: sum.splits)
    qed
  qed
qed

text \<open>
  C5 (as amended). \<open>run_segmentation\<close> reports the shape error and returns \<open>None\<close>, with no
  call of predict, exactly when the batched tensor does not have 5 dimensions. When it has,
  the only event is the call of predict on the batched tensor and \<open>None\<close> is not returned; a
  result is produced exactly when predict returns, without raising, a tensor of at least 5
  dimensions whose first axis and whose axis 4 are not empty, as every tensor of shape
  (b, x, y, z, k) with b and k positive is; an error raised by predict is the outcome of
  the call.
\<close>

theorem run_segmentation_shape_check:
  "(run_segmentation predict input_image =
      ([St_error_input_shape (shape (expand_dims0 input_image))], Inr None))
     = (ndim (expand_dims0 input_image) \<noteq> 5) \<and>
   (ndim (expand_dims0 input_image) = 5 \<longrightarrow>
      fst (run_segmentation predict input_image) = [Predict (expand_dims0 input_image)] \<and>
      snd (run_segmentation predict input_image) \<noteq> Inr None \<and>
      ((\<exists>labels. snd (run_segmentation predict input_image) = Inr (Some labels)) \<longleftrightarrow>
       (\<exists>p. predict (expand_dims0 input_image) = Inr p \<and> 5 \<le> ndim p \<and>
            hd (shape p) \<noteq> 0 \<and> shape p ! 4 \<noteq> 0)) \<and>
      (\<forall>e. predict (expand_dims0 input_image) = Inl e \<longrightarrow>
           snd (run_segmentation predict input_image) = Inl e)) \<and>
   (ndim (expand_dims0 input_image) = 5 \<and>
    predict (expand_dims0 input_image) = Inr prediction \<and>
    shape prediction = [b, x, y, z, k] \<and> 0 < b \<and> 0 < k \<longrightarrow>
      (\<exists>labels. snd (run_segmentation predict input_image) = Inr (Some labels)))"
proof (intro conjI impI allI)
  show "(run_segmentation predict input_image =
      ([St_error_input_shape (shape (expand_dims0 input_image))], Inr None))
     = (ndim (expand_dims0 input_image) \<noteq> 5)"
    by (auto simp: run_segmentation_def ndim_def Let_def io_bind_def io_emit_def io_lift_def
        io_return_def split: sum.splits prod.splits)
next
  assume "ndim (expand_dims0 input_image) = 5"
  then show "fst (run_segmentation predict input_image) = [Predict (expand_dims0 input_image)]"
    by (auto simp: run_segmentation_def ndim_def Let_def io_bind_def io_emit_def io_lift_def
        io_return_def split: sum.splits prod.splits)
next
  assume "ndim (expand_dims0 input_image) = 5"
  then show "snd (run_segmentation predict input_image) \<noteq> Inr None"
    by (auto simp: run_segmentation_def ndim_def Let_def io_bind_def io_emit_def io_lift_def
        io_return_def split: sum.splits prod.splits)
next
  assume "ndim (expand_dims0 input_image) = 5"
  then show "(\<exists>labels. snd (run_segmentation predict input_image) = Inr (Some labels)) \<longleftrightarrow>
       (\<exists>p. predict (expand_dims0 input_image) = Inr p \<and> 5 \<le> ndim p \<and>
            hd (shape p) \<noteq> 0 \<and> shape p ! 4 \<noteq> 0)"
    by (rule run_segmentation_result_iff)
next
  fix e
  assume "ndim (expand_dims0 input_image) = 5" "predict (expand_dims0 input_image) = Inl e"
  then show "snd (run_segmentation predict input_image) = Inl e"
    by (simp add: run_segmentation_def ndim_def Let_def snd_io_bind io_emit_def io_lift_def)
next
  assume a: "ndim (expand_dims0 input_image) = 5 \<and>
    predict (expand_dims0 input_image) = Inr prediction \<and>
    shape prediction = [b, x, y, z, k] \<and> 0 < b \<and> 0 < k"
  then have "ndim input_image = 4" by (simp add: ndim_def expand_dims0_def)
  with a show "\<exists>labels. snd (run_segmentation predict input_image) = Inr (Some labels)"
    using run_segmentation_value [of prediction b x y z k input_image predict] by simp
qed

theorem run_segmentation_shape_check_witness:
  "ndim (expand_dims0 flat_input) \<noteq> 5 \<and>
   run_segmentation crafted_model flat_input =
     ([St_error_input_shape [1, 2, 2, 2]], Inr None) \<and>
   ndim (expand_dims0 crafted_input) = 5 \<and>
   fst (run_segmentation crafted_model crafted_input) = [Predict (expand_dims0 crafted_input)] \<and>
   snd (run_segmentation crafted_model crafted_input) \<noteq> Inr None \<and>
   (\<exists>labels. snd (run_segmentation crafted_model crafted_input) = Inr (Some labels)) \<and>
   snd (run_segmentation refusing_model crafted_input) = Inl ModelError"
proof -
  have n3: "ndim (expand_dims0 flat_input) \<noteq> 5"
    by (simp add: ndim_def expand_dims0_def flat_input_def)
  have s3: "shape (expand_dims0 flat_input) = [1, 2, 2, 2]"
    by (simp add: expand_dims0_def flat_input_def)
  have n4: "ndim (expand_dims0 crafted_input) = 5"
    by (simp add: ndim_def expand_dims0_def crafted_input_def)
  have s: "shape crafted_prediction = [1, 2, 2, 2, 4]" by (simp add: crafted_prediction_def)
  have m: "crafted_model (expand_dims0 crafted_input) = Inr crafted_prediction"
    by (simp add: crafted_model_def)
  have r: "refusing_model (expand_dims0 crafted_input) = Inl ModelError"
    by (simp add: refusing_model_def)
  from run_segmentation_shape_check [of crafted_model flat_input] n3 s3
  have a: "run_segmentation crafted_model flat_input =
     ([St_error_input_shape [1, 2, 2, 2]], Inr None)" by simp
  from run_segmentation_shape_check
    [of crafted_model crafted_input crafted_prediction 1 2 2 2 4] n4 s m
  have b: "fst (run_segmentation crafted_model crafted_input) =
     [Predict (expand_dims0 crafted_input)] \<and>
   snd (run_segmentation crafted_model crafted_input) \<noteq> Inr None \<and>
   (\<exists>labels. snd (run_segmentation crafted_model crafted_input) = Inr (Some labels))"
    by (simp add: ndim_def)
  from run_segmentation_shape_check [of refusing_model crafted_input] n4 r
  have c: "snd (run_segmentation refusing_model crafted_input) = Inl ModelError" by blast
  from n3 a n4 b c show ?thesis by simp
qed

text \<open>
  C5 as stated fails: for an input of 4 dimensions, batched to 5, a model that raises and a
  model that answers with a tensor of 4 dimensions are both invoked, and no result is
  produced.
\<close>

theorem run_segmentation_no_result_counterexample:
  "ndim (expand_dims0 crafted_input) = 5 \<and>
   run_segmentation refusing_model crafted_input =
     ([Predict (expand_dims0 crafted_input)], Inl ModelError) \<and>
   run_segmentation wrong_rank_model crafted_input =
     ([Predict (expand_dims0 crafted_input)], Inl AxisError)"
  by (simp add: run_segmentation_def ndim_def expand_dims0_def crafted_input_def Let_def
      io_bind_def io_emit_def io_lift_def refusing_model_def wrong_rank_model_def
      np_argmax_def)

section \<open>Runs that end in an error\<close>

lemma snd_present:
  "snd (present fs mask_file c sr) =
     (case snd (load_mask fs mask_file) of
        Inl e \<Rightarrow> Inl e
      | Inr am \<Rightarrow>
          (case snd (plot_rows c sr mask_file am (zip [0..<length slice_indices] slice_indices)) of
             Inl e \<Rightarrow> Inl e
           | Inr u \<Rightarrow> snd (save_result sr)))"
  by (simp add: present_def snd_io_bind io_emit_def split: sum.splits)

lemma saved_present_cases:
  "saved (fst (present fs mask_file c sr)) =
     (case snd (load_mask fs mask_file) of
        Inl e \<Rightarrow> []
      | Inr am \<Rightarrow>
          (case snd (plot_rows c sr mask_file am (zip [0..<length slice_indices] slice_indices)) of
             Inl e \<Rightarrow> []
           | Inr u \<Rightarrow> saved (fst (save_result sr))))"
proof -
  have a: "list_all (\<lambda>e. saved_of e = []) (fst (io_emit St_write_completed))"
    "list_all (\<lambda>e. saved_of e = []) (fst (io_emit St_pyplot))"
    by (simp_all add: io_emit_def)
  have b: "list_all (\<lambda>e. saved_of e = []) (fst (load_mask fs mask_file))"
    by (rule load_mask_events) simp
  have c: "list_all (\<lambda>e. saved_of e = [])
      (fst (plot_rows c sr mask_file mask_am rows))" for mask_am rows
    by (rule plot_rows_events) simp_all
  show ?thesis
    unfolding present_def
    by (simp add: saved_io_bind_silent a b c io_emit_def split: sum.splits)
qed

lemma present_raises:
  assumes "snd (present fs mask_file c sr) = Inl e"
  shows "saved (fst (present fs mask_file c sr)) = []"
proof -
  have "snd (save_result sr) = Inl e \<Longrightarrow> saved (fst (save_result sr)) = []"
    by (cases sr)
       (simp_all add: save_result_def io_raise_def saved_def snd_io_bind io_emit_def)
  with assms show ?thesis
    by (auto simp: snd_present saved_present_cases split: sum.splits)
qed

lemma handler_truthy:
  assumes "truthy (t1n_path (find_files walk))" "truthy (t1c_path (find_files walk))"
    "truthy (t2f_path (find_files walk))" "truthy (t2w_path (find_files walk))"
  shows "handler fs predict walk =
     io_bind (segment fs predict (find_files walk)) (\<lambda>r.
       case r of
         None \<Rightarrow> io_return ()
       | Some (combined_image, segmentation_result) \<Rightarrow>
           present fs (mask_path (find_files walk)) combined_image segmentation_result)"
  using assms by (simp add: handler_def Let_def)

lemma handler_raises:
  assumes "snd (handler fs predict walk) = Inl e"
  shows "saved (fst (handler fs predict walk)) = []"
proof (cases "truthy (t1n_path (find_files walk)) \<and> truthy (t1c_path (find_files walk)) \<and>
    truthy (t2f_path (find_files walk)) \<and> truthy (t2w_path (find_files walk))")
  case False
  then show ?thesis by (auto simp: handler_def Let_def io_emit_def saved_def)
next
  case True
  then have h: "handler fs predict walk =
     io_bind (segment fs predict (find_files walk)) (\<lambda>r.
       case r of
         None \<Rightarrow> io_return ()
       | Some (combined_image, segmentation_result) \<Rightarrow>
           present fs (mask_path (find_files walk)) combined_image segmentation_result)"
    by (intro handler_truthy) simp_all
  have sil: "list_all (\<lambda>e. saved_of e = []) (fst (segment fs predict (find_files walk)))"
    by (rule segment_events) simp_all
  have ret: "saved (fst (io_return ())) = []" by (simp add: io_return_def saved_def)
  show ?thesis
  proof (cases "snd (segment fs predict (find_files walk))")
    case (Inl e')
    then show ?thesis by (simp add: h saved_io_bind_silent [OF sil])
  next
    case (Inr r)
    show ?thesis
    proof (cases r)
      case None
      with Inr show ?thesis by (simp add: h saved_io_bind_silent [OF sil] ret)
    next
      case (Some cr)
      obtain c sr where cr: "cr = (c, sr)" by (cases cr)
      from assms Inr Some cr
      have "snd (present fs (mask_path (find_files walk)) c sr) = Inl e"
        by (simp add: h snd_io_bind)
      then have "saved (fst (present fs (mask_path (find_files walk)) c sr)) = []"
        by (rule present_raises)
      with Inr Some cr show ?thesis by (simp add: h saved_io_bind_silent [OF sil])
    qed
  qed
qed

lemma snd_load_mask:
  "snd (load_mask fs mask_file) =
     (if truthy mask_file
      then (case fs (the mask_file) of
              Inl e \<Rightarrow> Inl e
            | Inr mk \<Rightarrow> (case mask_argmax mk of Inl e \<Rightarrow> Inl e | Inr am \<Rightarrow> Inr (Some am)))
      else Inr None)"
  by (simp add: load_mask_def snd_io_bind io_emit_def io_lift_def io_return_def
      split: sum.splits)

lemma handler_ground_truth_raises:
  assumes t: "\<forall>m \<in> {T1n, T1c, T2f, T2w}. matches (suffix_of m) walk \<noteq> []"
    and s: "snd (segment fs predict (find_files walk)) = Inr (Some (c, sr))"
    and g: "snd (load_mask fs (mask_path (find_files walk))) = Inl e \<or>
            (\<exists>am. snd (load_mask fs (mask_path (find_files walk))) = Inr am \<and>
                  snd (plot_rows c sr (mask_path (find_files walk)) am
                         (zip [0..<length slice_indices] slice_indices)) = Inl e)"
  shows "snd (handler fs predict walk) = Inl e \<and> saved (fst (handler fs predict walk)) = []"
proof -
  have tr: "truthy (t1n_path (find_files walk))" "truthy (t1c_path (find_files walk))"
    "truthy (t2f_path (find_files walk))" "truthy (t2w_path (find_files walk))"
    using t truthy_binding [of T1n walk] truthy_binding [of T1c walk]
      truthy_binding [of T2f walk] truthy_binding [of T2w walk] by simp_all
  have "snd (present fs (mask_path (find_files walk)) c sr) = Inl e"
    using g by (auto simp: snd_present)
  then have "snd (handler fs predict walk) = Inl e"
    using s by (simp add: handler_truthy [OF tr] snd_io_bind)
  then show ?thesis using handler_raises by blast
qed

section \<open>Ground truth and the packaged result\<close>

lemma mask_path_nonempty:
  assumes "mask_path (find_files walk) = Some p"
  shows "truthy (Some p)"
proof -
  have b: "binding_of Seg (find_files walk) = Some p"
    using assms by simp
  have "matches (suffix_of Seg) walk \<noteq> []"
  proof
    assume "matches (suffix_of Seg) walk = []"
    then have "binding_of Seg (find_files walk) = None"
      by (simp add: binding_of_find_files last_option_def del: binding_of.simps)
    with b show False by simp
  qed
  then have "truthy (binding_of Seg (find_files walk))"
    using truthy_binding [of Seg walk] by blast
  then show ?thesis by (simp only: b)
qed

lemma ground_truth_aborts_run:
  assumes t: "\<forall>m \<in> {T1n, T1c, T2f, T2w}. matches (suffix_of m) walk \<noteq> []"
  shows "ground_truth_aborts fs predict walk"
  unfolding ground_truth_aborts_def
proof (intro allI impI conjI)
  fix c sr e p
  assume s: "snd (segment fs predict (find_files walk)) = Inr (Some (c, sr))"
    and m: "mask_path (find_files walk) = Some p \<and> fs p = Inl e"
  have "snd (load_mask fs (mask_path (find_files walk))) = Inl e"
    using m mask_path_nonempty [of walk p] by (simp add: snd_load_mask)
  then have "snd (handler fs predict walk) = Inl e \<and> saved (fst (handler fs predict walk)) = []"
    by (intro handler_ground_truth_raises [OF t s]) simp
  then show "snd (handler fs predict walk) = Inl e"
    and "saved (fst (handler fs predict walk)) = []" by simp_all
next
  fix c sr e p mk
  assume s: "snd (segment fs predict (find_files walk)) = Inr (Some (c, sr))"
    and m: "mask_path (find_files walk) = Some p \<and> fs p = Inr mk \<and> mask_argmax mk = Inl e"
  have "snd (load_mask fs (mask_path (find_files walk))) = Inl e"
    using m mask_path_nonempty [of walk p] by (simp add: snd_load_mask)
  then have "snd (handler fs predict walk) = Inl e \<and> saved (fst (handler fs predict walk)) = []"
    by (intro handler_ground_truth_raises [OF t s]) simp
  then show "snd (handler fs predict walk) = Inl e"
    and "saved (fst (handler fs predict walk)) = []" by simp_all
next
  fix c sr e am
  assume s: "snd (segment fs predict (find_files walk)) = Inr (Some (c, sr))"
    and m: "snd (load_mask fs (mask_path (find_files walk))) = Inr am \<and>
              snd (plot_rows c sr (mask_path (find_files walk)) am
                     (zip [0..<length slice_indices] slice_indices)) = Inl e"
  have "snd (handler fs predict walk) = Inl e \<and> saved (fst (handler fs predict walk)) = []"
    using m by (intro handler_ground_truth_raises [OF t s]) auto
  then show "snd (handler fs predict walk) = Inl e"
    and "saved (fst (handler fs predict walk)) = []" by simp_all
qed

lemma snd_preprocess_nifti_cong:
  "fs1 p1 = fs2 p2 \<Longrightarrow> snd (preprocess_nifti fs1 p1) = snd (preprocess_nifti fs2 p2)"
  by (simp add: preprocess_nifti_def snd_io_bind io_emit_def io_lift_def)

lemma snd_segment:
  "snd (segment fs predict st) =
     (case snd (preprocess_nifti fs (the (t1n_path st))) of Inl e \<Rightarrow> Inl e | Inr t1n \<Rightarrow>
     (case snd (preprocess_nifti fs (the (t1c_path st))) of Inl e \<Rightarrow> Inl e | Inr t1c \<Rightarrow>
     (case snd (preprocess_nifti fs (the (t2f_path st))) of Inl e \<Rightarrow> Inl e | Inr t2f \<Rightarrow>
     (case snd (preprocess_nifti fs (the (t2w_path st))) of Inl e \<Rightarrow> Inl e | Inr t2w \<Rightarrow>
     (case combine_channels t1n t1c t2f t2w of Inl e \<Rightarrow> Inl e | Inr combined_image \<Rightarrow>
        if length (shape combined_image) \<noteq> 4 then Inr None
        else (case snd (run_segmentation predict combined_image) of
               Inl e \<Rightarrow> Inl e
             | Inr segmentation_result \<Rightarrow> Inr (Some (combined_image, segmentation_result))))))))"
  by (simp add: segment_def snd_io_bind io_lift_def io_emit_def io_return_def
      split: sum.splits)

lemma find_files_moved_walk:
  "find_files moved_walk =
     \<lparr>t1n_path = Some ''/tmp/y/case/a-t1n.nii.gz'', t1c_path = Some ''/tmp/y/case/a-t1c.nii.gz'',
      t2f_path = Some ''/tmp/y/case/a-t2f.nii.gz'', t2w_path = Some ''/tmp/y/case/a-t2w.nii.gz'',
      mask_path = None\<rparr>"
  by (simp add: find_files_def moved_walk_def scan_file_def endswith_def path_join_def
      not_found_def)

lemma segment_stub_model:
  assumes "fs (the (t1n_path st)) = Inr (constant_volume 1)"
    "fs (the (t1c_path st)) = Inr (constant_volume 1)"
    "fs (the (t2f_path st)) = Inr (constant_volume 1)"
    "fs (the (t2w_path st)) = Inr (constant_volume 1)"
  shows "\<exists>c r. snd (segment fs stub_model st) = Inr (Some (c, Some r)) \<and>
           shape c = [128, 128, 128, 4] \<and> shape r = [128, 128, 128]"
proof -
  note sh = shape_constant_volume [of "1::real"]
  from segment_ok [of fs st _ _ _ _ _ _ _ stub_model,
      OF assms sh sh sh sh _ _ _ stub_model_answers]
  show ?thesis by simp
qed

lemma seg_fs_files:
  "label5_seg_fs ''/tmp/x/case/a-t1n.nii.gz'' = Inr (constant_volume 1)"
  "label5_seg_fs ''/tmp/x/case/a-t1c.nii.gz'' = Inr (constant_volume 1)"
  "label5_seg_fs ''/tmp/x/case/a-t2f.nii.gz'' = Inr (constant_volume 1)"
  "label5_seg_fs ''/tmp/x/case/a-t2w.nii.gz'' = Inr (constant_volume 1)"
  "label5_seg_fs ''/tmp/x/case/a-seg.nii.gz'' = Inr (constant_volume 5)"
  "shallow_seg_fs ''/tmp/x/case/a-t1n.nii.gz'' = Inr (constant_volume 1)"
  "shallow_seg_fs ''/tmp/x/case/a-t1c.nii.gz'' = Inr (constant_volume 1)"
  "shallow_seg_fs ''/tmp/x/case/a-t2f.nii.gz'' = Inr (constant_volume 1)"
  "shallow_seg_fs ''/tmp/x/case/a-t2w.nii.gz'' = Inr (constant_volume 1)"
  "shallow_seg_fs ''/tmp/x/case/a-seg.nii.gz'' = Inr \<lparr>shape = [2, 2, 2], data = replicate 8 0\<rparr>"
  by (simp_all add: label5_seg_fs_def shallow_seg_fs_def endswith_def)

lemma mask_argmax_label5: "mask_argmax (constant_volume 5) = Inl IndexError"
proof -
  have "unat (reassign (astype_uint8 5)) = 5"
    by (simp add: reassign_def astype_uint8_def)
  then show ?thesis
    by (simp add: mask_argmax_def to_categorical_def constant_volume_def Let_def list_ex_iff)
qed

lemma mask_argmax_shallow:
  "mask_argmax \<lparr>shape = [2, 2, 2], data = replicate 8 0\<rparr> =
     Inr \<lparr>shape = [2, 2, 2], data = map (\<lambda>v. unat (reassign (astype_uint8 v))) (replicate 8 0)\<rparr>"
proof -
  let ?m = "\<lparr>shape = [2, 2, 2], data = replicate 8 (0::real)\<rparr>"
  have "wf ?m" by (simp add: wf_def)
  moreover have "shape ?m = [2, 2, 2]" by simp
  moreover have "(2::nat) \<noteq> 1" by simp
  moreover have "\<forall>v \<in> set (data ?m). v \<in> {0, 1, 2, 4}" by simp
  ultimately have "mask_argmax ?m =
      Inr \<lparr>shape = [2, 2, 2], data = map (\<lambda>v. unat (reassign (astype_uint8 v))) (data ?m)\<rparr>"
    by (rule mask_argmax_value)
  then show ?thesis by simp
qed

lemma plot_rows_shallow_mask:
  assumes "shape ci = [x, y, z, c]" "75 < z" "0 < c" "shape r = [x', y', z']" "75 < z'"
    and "p \<noteq> []" "shape am = [x'', y'', z'']" "z'' \<le> 75"
  shows "snd (plot_rows ci (Some r) (Some p) (Some am)
                (zip [0..<length slice_indices] slice_indices)) = Inl IndexError"
proof -
  from rotated_image_slice_ok [OF assms(1-3)] obtain s where
    s: "rotated_image_slice ci 75 = Inr s" by blast
  from rotated_slice_ok [OF assms(4,5)] obtain t where t: "rotated_slice r 75 = Inr t"
    by blast
  have u: "rotated_slice am 75 = Inl IndexError"
    using assms(7,8) by (simp add: rotated_slice_def slice_depth_def ndim_def Let_def)
  have rows: "zip [0..<length slice_indices] slice_indices = [(0, 75), (1, 90), (2, 100)]"
    by (simp add: slice_indices_def upt_rec numeral_eq_Suc)
  show ?thesis
    unfolding rows using assms(6)
    by (simp add: plot_row_def snd_io_bind s t u io_lift_def io_emit_def truthy_def)
qed


text \<open>
  C10 (as amended). Take two runs with the same model in which each of the four modality
  suffixes is bound to a file and the files bound to the same suffix have the same contents
  in both runs; the paths, and the presence and the contents of a ground-truth file, may
  differ. Then the outcome of preprocessing, combination and \<open>run_segmentation\<close> (the
  combined image with the predicted label volume, or the error raised) is the same in both
  runs, and when the paths are the same too, so is every event up to the return of
  \<open>run_segmentation\<close>. If both runs write the output file, the voxel contents written are
  identical. A run that ends in an error has written no output file; and once the
  segmentation stage has returned, an error raised by loading the ground-truth file, by its
  adaptation, or while the figure is drawn is the outcome of the request, with no output
  file written.
\<close>

theorem ground_truth_noninterference:
  assumes agree: "\<forall>m \<in> {T1n, T1c, T2f, T2w}. \<exists>p1 p2.
      binding_of m (find_files walk1) = Some p1 \<and> binding_of m (find_files walk2) = Some p2 \<and>
      fs1 p1 = fs2 p2"
  shows "snd (segment fs1 predict (find_files walk1)) =
           snd (segment fs2 predict (find_files walk2)) \<and>
         ((\<forall>m \<in> {T1n, T1c, T2f, T2w}.
              binding_of m (find_files walk1) = binding_of m (find_files walk2)) \<longrightarrow>
          segment fs1 predict (find_files walk1) = segment fs2 predict (find_files walk2)) \<and>
         (saved (fst (handler fs1 predict walk1)) = [] \<or>
          saved (fst (handler fs2 predict walk2)) = [] \<or>
          saved (fst (handler fs1 predict walk1)) = saved (fst (handler fs2 predict walk2))) \<and>
         (\<forall>e. snd (handler fs1 predict walk1) = Inl e \<longrightarrow>
              saved (fst (handler fs1 predict walk1)) = []) \<and>
         (\<forall>e. snd (handler fs2 predict walk2) = Inl e \<longrightarrow>
              saved (fst (handler fs2 predict walk2)) = []) \<and>
         ground_truth_aborts fs1 predict walk1 \<and>
         ground_truth_aborts fs2 predict walk2"
proof -
  from agree obtain p1 p2 p3 p4 q1 q2 q3 q4 where
    p1: "t1n_path (find_files walk1) = Some p1" "t1n_path (find_files walk2) = Some q1"
        "fs1 p1 = fs2 q1" and
    p2: "t1c_path (find_files walk1) = Some p2" "t1c_path (find_files walk2) = Some q2"
        "fs1 p2 = fs2 q2" and
    p3: "t2f_path (find_files walk1) = Some p3" "t2f_path (find_files walk2) = Some q3"
        "fs1 p3 = fs2 q3" and
    p4: "t2w_path (find_files walk1) = Some p4" "t2w_path (find_files walk2) = Some q4"
        "fs1 p4 = fs2 q4"
    by fastforce
  have seg: "snd (segment fs1 predict (find_files walk1)) =
             snd (segment fs2 predict (find_files walk2))"
    using snd_preprocess_nifti_cong [of fs1 p1 fs2 q1] snd_preprocess_nifti_cong [of fs1 p2 fs2 q2]
      snd_preprocess_nifti_cong [of fs1 p3 fs2 q3] snd_preprocess_nifti_cong [of fs1 p4 fs2 q4]
    by (simp add: snd_segment p1 p2 p3 p4 cong: sum.case_cong)
  have full: "segment fs1 predict (find_files walk1) = segment fs2 predict (find_files walk2)"
    if "\<forall>m \<in> {T1n, T1c, T2f, T2w}.
          binding_of m (find_files walk1) = binding_of m (find_files walk2)"
  proof -
    from that p1 p2 p3 p4 have "q1 = p1" "q2 = p2" "q3 = p3" "q4 = p4" by simp_all
    with p1 p2 p3 p4 show ?thesis
      by (simp add: segment_def preprocess_nifti_cong [of fs1 _ fs2])
  qed
  have sv: "saved (fst (handler fs1 predict walk1)) = [] \<or>
          saved (fst (handler fs2 predict walk2)) = [] \<or>
          saved (fst (handler fs1 predict walk1)) = saved (fst (handler fs2 predict walk2))"
    using saved_handler [of fs1 predict walk1] saved_handler [of fs2 predict walk2] seg
    by auto
  have m1: "\<forall>m \<in> {T1n, T1c, T2f, T2w}. matches (suffix_of m) walk1 \<noteq> []"
    using agree by (auto simp: binding_of_find_files last_option_def split: if_splits)
  have m2: "\<forall>m \<in> {T1n, T1c, T2f, T2w}. matches (suffix_of m) walk2 \<noteq> []"
    using agree by (auto simp: binding_of_find_files last_option_def split: if_splits)
  from seg full sv handler_raises [of fs1 predict walk1] handler_raises [of fs2 predict walk2]
    ground_truth_aborts_run [OF m1, of fs1 predict] ground_truth_aborts_run [OF m2, of fs2 predict]
  show ?thesis by blast
qed


text \<open>
  Four runs on the archive with a ground-truth file: one that is read and drawn, one that
  cannot be read, one with a label outside the four classes, and one too shallow for the
  slices of the figure; and a run on the same modality files in another directory.
\<close>

theorem ground_truth_noninterference_witness:
  "t1n_path (find_files seg_walk) \<noteq> t1n_path (find_files moved_walk) \<and>
   mask_path (find_files seg_walk) \<noteq> mask_path (find_files moved_walk) \<and>
   snd (segment uniform_fs stub_model (find_files seg_walk)) =
     snd (segment uniform_fs stub_model (find_files moved_walk)) \<and>
   segment uniform_fs stub_model (find_files seg_walk) =
     segment uniform_fs stub_model (find_files complete_walk) \<and>
   saved (fst (handler uniform_fs stub_model seg_walk)) \<noteq> [] \<and>
   saved (fst (handler uniform_fs stub_model seg_walk)) =
     saved (fst (handler uniform_fs stub_model moved_walk)) \<and>
   snd (handler broken_seg_fs stub_model seg_walk) = Inl ImageFileError \<and>
   saved (fst (handler broken_seg_fs stub_model seg_walk)) = [] \<and>
   snd (handler label5_seg_fs stub_model seg_walk) = Inl IndexError \<and>
   saved (fst (handler label5_seg_fs stub_model seg_walk)) = [] \<and>
   snd (handler shallow_seg_fs stub_model seg_walk) = Inl IndexError \<and>
   saved (fst (handler shallow_seg_fs stub_model seg_walk)) = []"
proof -
  note sh = shape_constant_volume [of "1::real"]
  have f: "uniform_fs q = Inr (constant_volume 1)" for q
    by (simp add: uniform_fs_def)
  have h1: "\<forall>m \<in> {T1n, T1c, T2f, T2w}. \<exists>p1 p2.
      binding_of m (find_files seg_walk) = Some p1 \<and>
      binding_of m (find_files moved_walk) = Some p2 \<and> uniform_fs p1 = uniform_fs p2"
    by (simp add: find_files_moved_walk find_files_seg_walk f)
  have h2: "\<forall>m \<in> {T1n, T1c, T2f, T2w}. \<exists>p1 p2.
      binding_of m (find_files seg_walk) = Some p1 \<and>
      binding_of m (find_files complete_walk) = Some p2 \<and> uniform_fs p1 = uniform_fs p2"
    by (simp add: find_files_complete_walk find_files_seg_walk f)
  have h3: "\<forall>m \<in> {T1n, T1c, T2f, T2w}. \<exists>p1 p2.
      binding_of m (find_files seg_walk) = Some p1 \<and>
      binding_of m (find_files seg_walk) = Some p2 \<and> fs p1 = fs p2" for fs :: "string \<Rightarrow> exn + real ndarray"
    by (simp add: find_files_seg_walk)
  have t1: "truthy (t1n_path (find_files moved_walk))"
    "truthy (t1c_path (find_files moved_walk))"
    "truthy (t2f_path (find_files moved_walk))"
    "truthy (t2w_path (find_files moved_walk))"
    by (simp_all add: find_files_moved_walk truthy_def)
  have t2: "truthy (t1n_path (find_files seg_walk))"
    "truthy (t1c_path (find_files seg_walk))"
    "truthy (t2f_path (find_files seg_walk))"
    "truthy (t2w_path (find_files seg_walk))"
    by (simp_all add: find_files_seg_walk truthy_def)
  from segment_stub_model [of uniform_fs "find_files moved_walk", OF f f f f]
  obtain c r where s1:
    "snd (segment uniform_fs stub_model (find_files moved_walk)) = Inr (Some (c, Some r))"
    "shape c = [128, 128, 128, 4]" "shape r = [128, 128, 128]"
    by auto
  have m1: "mask_path (find_files moved_walk) = None"
    by (simp add: find_files_moved_walk)
  have a: "saved (fst (handler uniform_fs stub_model moved_walk)) = [astype_float32 r]"
    using t1 m1 s1 by (rule handler_saves)
  from segment_stub_model [of uniform_fs "find_files seg_walk", OF f f f f]
  obtain c' r' where s2:
    "snd (segment uniform_fs stub_model (find_files seg_walk)) = Inr (Some (c', Some r'))"
    "shape c' = [128, 128, 128, 4]" "shape r' = [128, 128, 128]"
    by auto
  have m2: "mask_path (find_files seg_walk) = Some ''/tmp/x/case/a-seg.nii.gz''"
    by (simp add: find_files_seg_walk)
  have wfc: "wf (constant_volume (1::real))"
    by (simp add: wf_def constant_volume_def)
  have vals: "\<forall>v \<in> set (data (constant_volume (1::real))). v \<in> {0, 1, 2, 4}"
    by (simp add: constant_volume_def)
  have am: "mask_argmax (constant_volume 1) =
      Inr \<lparr>shape = [240, 240, 155],
           data = map (\<lambda>v. unat (reassign (astype_uint8 v))) (data (constant_volume 1))\<rparr>"
    using wfc sh _ vals by (rule mask_argmax_value) simp
  have ne: "''/tmp/x/case/a-seg.nii.gz'' \<noteq> []" by simp
  have sam: "shape \<lparr>shape = [240, 240, 155],
      data = map (\<lambda>v. unat (reassign (astype_uint8 v))) (data (constant_volume (1::real)))\<rparr> =
      [240, 240, 155]" by simp
  have deep: "(100::nat) < 155" by simp
  have b: "saved (fst (handler uniform_fs stub_model seg_walk)) = [astype_float32 r']"
    using t2 m2 ne f am sam deep s2 by (rule handler_saves_with_mask)
  have files: "the (t1n_path (find_files seg_walk)) = ''/tmp/x/case/a-t1n.nii.gz''"
    "the (t1c_path (find_files seg_walk)) = ''/tmp/x/case/a-t1c.nii.gz''"
    "the (t2f_path (find_files seg_walk)) = ''/tmp/x/case/a-t2f.nii.gz''"
    "the (t2w_path (find_files seg_walk)) = ''/tmp/x/case/a-t2w.nii.gz''"
    by (simp_all add: find_files_seg_walk)
  from segment_stub_model [of broken_seg_fs "find_files seg_walk"]
  obtain c3 r3 where s3:
    "snd (segment broken_seg_fs stub_model (find_files seg_walk)) = Inr (Some (c3, Some r3))"
    by (auto simp: files broken_seg_fs_files)
  from segment_stub_model [of label5_seg_fs "find_files seg_walk"]
  obtain c4 r4 where s4:
    "snd (segment label5_seg_fs stub_model (find_files seg_walk)) = Inr (Some (c4, Some r4))"
    by (auto simp: files seg_fs_files)
  from segment_stub_model [of shallow_seg_fs "find_files seg_walk"]
  obtain c5 r5 where s5:
    "snd (segment shallow_seg_fs stub_model (find_files seg_walk)) = Inr (Some (c5, Some r5))"
    "shape c5 = [128, 128, 128, 4]" "shape r5 = [128, 128, 128]"
    by (auto simp: files seg_fs_files)
  have l5: "snd (load_mask shallow_seg_fs (mask_path (find_files seg_walk))) =
      Inr (Some \<lparr>shape = [2, 2, 2],
                  data = map (\<lambda>v. unat (reassign (astype_uint8 v))) (replicate 8 0)\<rparr>)"
    by (simp add: snd_load_mask m2 truthy_def seg_fs_files mask_argmax_shallow)
  have p5: "snd (plot_rows c5 (Some r5) (mask_path (find_files seg_walk))
        (Some \<lparr>shape = [2, 2, 2],
                data = map (\<lambda>v. unat (reassign (astype_uint8 v))) (replicate 8 0)\<rparr>)
        (zip [0..<length slice_indices] slice_indices)) = Inl IndexError"
  proof -
    have d: "(75::nat) < 128" "(0::nat) < 4" "(2::nat) \<le> 75" by simp_all
    have sm: "shape \<lparr>shape = [2, 2, 2],
        data = map (\<lambda>v. unat (reassign (astype_uint8 v))) (replicate 8 (0::real))\<rparr> = [2, 2, 2]"
      by simp
    show ?thesis
      unfolding m2 using s5(2) d(1,2) s5(3) d(1) ne sm d(3) by (rule plot_rows_shallow_mask)
  qed
  from ground_truth_noninterference [OF h1, of stub_model]
    ground_truth_noninterference [OF h2, of stub_model]
  have one: "snd (segment uniform_fs stub_model (find_files seg_walk)) =
       snd (segment uniform_fs stub_model (find_files moved_walk)) \<and>
     segment uniform_fs stub_model (find_files seg_walk) =
       segment uniform_fs stub_model (find_files complete_walk) \<and>
     saved (fst (handler uniform_fs stub_model seg_walk)) \<noteq> [] \<and>
     saved (fst (handler uniform_fs stub_model seg_walk)) =
       saved (fst (handler uniform_fs stub_model moved_walk))"
    using a b by (simp add: find_files_complete_walk find_files_seg_walk)
  from ground_truth_noninterference [OF h3 [of broken_seg_fs], of stub_model]
  have "ground_truth_aborts broken_seg_fs stub_model seg_walk" by simp
  then have two: "snd (handler broken_seg_fs stub_model seg_walk) = Inl ImageFileError \<and>
     saved (fst (handler broken_seg_fs stub_model seg_walk)) = []"
    unfolding ground_truth_aborts_def using s3 m2 broken_seg_fs_files(5) by blast
  from ground_truth_noninterference [OF h3 [of label5_seg_fs], of stub_model]
  have "ground_truth_aborts label5_seg_fs stub_model seg_walk" by simp
  then have three: "snd (handler label5_seg_fs stub_model seg_walk) = Inl IndexError \<and>
     saved (fst (handler label5_seg_fs stub_model seg_walk)) = []"
    unfolding ground_truth_aborts_def using s4 m2 seg_fs_files(5) mask_argmax_label5 by blast
  from ground_truth_noninterference [OF h3 [of shallow_seg_fs], of stub_model]
  have "ground_truth_aborts shallow_seg_fs stub_model seg_walk" by simp
  then have four: "snd (handler shallow_seg_fs stub_model seg_walk) = Inl IndexError \<and>
     saved (fst (handler shallow_seg_fs stub_model seg_walk)) = []"
    unfolding ground_truth_aborts_def using s5(1) l5 p5 by blast
  have zero: "t1n_path (find_files seg_walk) \<noteq> t1n_path (find_files moved_walk) \<and>
     mask_path (find_files seg_walk) \<noteq> mask_path (find_files moved_walk)"
    by (simp add: find_files_seg_walk find_files_moved_walk)
  from zero one two three four show ?thesis by blast
qed

end
